theory Spec2Isabelle
  imports Main "HOL-Library.Sublist" "HOL-Library.Word"
begin

unbundle bit_operations_syntax

section \<open>The cache wrapper of \<open>preprocess/cache_main.cc\<close>\<close>

text \<open>
  The program wraps a child process that answers every line it reads with one line.
  It fingerprints each input line, forwards a line to the child only when its fingerprint
  is new, and answers repeated fingerprints from a cache. Two workers share the cache and
  a queue of handles: \<open>Input\<close> (reads lines, fills the queue) and \<open>Output\<close> (empties the
  queue, reads the child's answers, writes the output).

  Strings are byte lists. A value that a C++ function may fail to produce is a sum
  \<open>error + 'a\<close>; a loop that may run forever yields an \<open>option\<close>, \<open>None\<close> standing for
  "does not return".
\<close>

subsection \<open>Errors and options\<close>

datatype error =
    invalid_argument      \<comment> \<open>\<open>std::stoi\<close>: no conversion could be performed\<close>
  | out_of_range          \<comment> \<open>\<open>std::stoi\<close>: value outside \<open>int\<close>; \<open>vector::at\<close>: bad index\<close>
  | program_options_error \<comment> \<open>an exception of \<open>boost::program_options\<close>\<close>
  | logic_error           \<comment> \<open>\<open>std::string\<close> built from a null \<open>argv\<close> slot\<close>
  | EndOfFileException    \<comment> \<open>\<open>util::FilePiece::ReadLine\<close> at the end of the child's output\<close>
  | dangling_handle       \<comment> \<open>a queue entry that points at no slot of the cache\<close>

record Options =
  key :: string
  field_separator :: string

subsection \<open>Library functions the source calls\<close>

text \<open>
  \<open>std::string::find(pat)\<close> from position 0: the least position at which \<open>pat\<close> occurs,
  \<open>None\<close> for \<open>npos\<close>. The empty pattern is found at position 0 of every string.
\<close>

fun str_find :: "string \<Rightarrow> string \<Rightarrow> nat option" where
  "str_find [] pat = (if pat = [] then Some 0 else None)"
| "str_find (c # cs) pat =
     (if prefix pat (c # cs) then Some 0 else map_option Suc (str_find cs pat))"

text \<open>
  \<open>std::stoi(str, &sz)\<close>, base 10, as \<open>strtol\<close> reads it: leading white space is skipped,
  one sign is optional, then the longest run of decimal digits is converted; whatever
  follows the digits is ignored. Without a digit it throws \<open>std::invalid_argument\<close>, with
  a value that does not fit \<open>int\<close> it throws \<open>std::out_of_range\<close>.
\<close>

definition isspace :: "char \<Rightarrow> bool" where
  "isspace c = (c \<in> set [CHR '' '', CHR 0x09, CHR 0x0A, CHR 0x0B, CHR 0x0C, CHR 0x0D])"

definition isdigit :: "char \<Rightarrow> bool" where
  "isdigit c = (48 \<le> (of_char c :: nat) \<and> (of_char c :: nat) \<le> 57)"

definition digits_value :: "string \<Rightarrow> int" where
  "digits_value ds = foldl (\<lambda>v c. 10 * v + (int (of_char c) - 48)) 0 ds"

definition INT_MAX :: int where
  "INT_MAX = 2147483647"

definition INT_MIN :: int where
  "INT_MIN = - 2147483648"

definition stoi :: "string \<Rightarrow> error + int" where
  "stoi str =
     (let s1 = dropWhile isspace str;
          negative = (s1 \<noteq> [] \<and> hd s1 = CHR ''-'');
          s2 = (if s1 \<noteq> [] \<and> (hd s1 = CHR ''-'' \<or> hd s1 = CHR ''+'') then tl s1 else s1);
          ds = takeWhile isdigit s2;
          v = (if negative then - digits_value ds else digits_value ds)
      in if ds = [] then Inl invalid_argument
         else if v < INT_MIN \<or> INT_MAX < v then Inl out_of_range
         else Inr v)"

subsection \<open>The fingerprint hash\<close>

text \<open>
  Modelled from the spec: \<open>util::MurmurHashNative\<close> (declared in \<open>util/murmur_hash.hh\<close>)
  is not among the sources. The spec fixes the fingerprint as the 64-bit MurmurHash,
  bit-exact with MurmurHash64A; the source calls it with the default seed 0. Eight-byte
  blocks are read little-endian.
\<close>

definition murmur_m :: "64 word" where
  "murmur_m = 0xc6a4a7935bd1e995"

definition murmur_r :: nat where
  "murmur_r = 47"

fun load_le :: "string \<Rightarrow> 64 word" where
  "load_le [] = 0"
| "load_le (c # cs) = of_nat (of_char c) + push_bit 8 (load_le cs)"

function murmur_blocks :: "64 word \<Rightarrow> string \<Rightarrow> 64 word \<times> string" where
  "murmur_blocks h data =
     (if length data < 8 then (h, data)
      else let k0 = load_le (take 8 data) * murmur_m;
               k1 = (k0 XOR drop_bit murmur_r k0) * murmur_m
           in murmur_blocks ((h XOR k1) * murmur_m) (drop 8 data))"
  by pat_completeness auto
termination
  by (relation "measure (\<lambda>(h, data). length data)") auto

declare murmur_blocks.simps [simp del]

definition MurmurHash64A :: "string \<Rightarrow> 64 word \<Rightarrow> 64 word" where
  "MurmurHash64A data seed =
     (let (h0, rest) = murmur_blocks (seed XOR (of_nat (length data) * murmur_m)) data;
          h1 = (if rest = [] then h0 else (h0 XOR load_le rest) * murmur_m);
          h2 = (h1 XOR drop_bit murmur_r h1) * murmur_m
      in h2 XOR drop_bit murmur_r h2)"

definition MurmurHashNative :: "string \<Rightarrow> 64 word" where
  "MurmurHashNative data = MurmurHash64A data 0"

subsection \<open>\<open>Input\<close>: the key columns (lines 70 to 84)\<close>

text \<open>
  The \<open>--key\<close> string is cut at each comma and every piece goes through \<open>std::stoi\<close>;
  the piece after the last comma is converted after the loop. An exception of
  \<open>std::stoi\<close> leaves the function.
\<close>

function parse_key_loop :: "string \<Rightarrow> int list \<Rightarrow> error + int list" where
  "parse_key_loop s_args columns_args =
     (case str_find s_args '','' of
        Some pos_args \<Rightarrow>
          (case stoi (take pos_args s_args) of
             Inl e \<Rightarrow> Inl e
           | Inr int_token_args \<Rightarrow>
               parse_key_loop (drop (pos_args + 1) s_args) (columns_args @ [int_token_args]))
      | None \<Rightarrow>
          (case stoi s_args of
             Inl e \<Rightarrow> Inl e
           | Inr last_int_token_args \<Rightarrow> Inr (columns_args @ [last_int_token_args])))"
  by pat_completeness auto
termination
proof (relation "measure (\<lambda>(s_args, columns_args). length s_args)")
  show "wf (measure (\<lambda>(s_args, columns_args). length s_args))"
    by simp
next
  fix s_args :: string and columns_args :: "int list" and pos_args :: nat and x :: int
  assume found: "str_find s_args '','' = Some pos_args"
  have "str_find s '','' = Some p \<Longrightarrow> p < length s" for s p
    by (induction s arbitrary: p) (auto split: if_splits)
  from this [OF found]
  show "((drop (pos_args + 1) s_args, columns_args @ [x]), (s_args, columns_args))
          \<in> measure (\<lambda>(s_args, columns_args). length s_args)"
    by simp
qed

declare parse_key_loop.simps [simp del]

definition parse_key :: "string \<Rightarrow> error + int list" where
  "parse_key k = parse_key_loop k []"

subsection \<open>\<open>Input\<close>: splitting a line and fingerprinting it (lines 88 to 120)\<close>

text \<open>
  The splitting loop of lines 93 to 98. It returns when \<open>find\<close> reports \<open>npos\<close>; with an
  empty separator \<open>find\<close> never does, so the loop is a partial function. (Memory is not
  bounded in the model; in the program the vector \<open>columns\<close> grows with every round.)
\<close>

partial_function (option) split_loop :: "string \<Rightarrow> string \<Rightarrow> string list \<Rightarrow> string list option"
where
  "split_loop sep s columns =
     (case str_find s sep of
        Some pos \<Rightarrow> split_loop sep (drop (pos + length sep) s) (columns @ [take pos s])
      | None \<Rightarrow> Some (columns @ [s]))"

declare split_loop.simps [code]

text \<open>
  Lines 100 to 109: the least and the greatest requested column, starting from
  \<open>INT_MAX\<close> and 0.
\<close>

definition min_max :: "int list \<Rightarrow> int \<times> int" where
  "min_max columns_args =
     foldl (\<lambda>(mn, mx) i. (if i < mn then i else mn, if i > mx then i else mx))
       (INT_MAX, 0) columns_args"

text \<open>
  Lines 116 to 118: \<open>hash_string += columns.at(i-1)\<close> for every requested column;
  \<open>at\<close> throws \<open>std::out_of_range\<close> for an index outside the vector (a negative
  \<open>i-1\<close> becomes a huge \<open>size_t\<close>).
\<close>

fun concat_columns :: "string list \<Rightarrow> int list \<Rightarrow> string \<Rightarrow> error + string" where
  "concat_columns columns [] hash_string = Inr hash_string"
| "concat_columns columns (i # is) hash_string =
     (if 0 \<le> i - 1 \<and> i - 1 < int (length columns)
      then concat_columns columns is (hash_string @ columns ! nat (i - 1))
      else Inl out_of_range)"

text \<open>
  Lines 88 to 120. The comparison \<open>columns.size() < max\<close> converts \<open>max\<close> to
  \<open>size_t\<close>; \<open>max\<close> is never negative, so the conversion keeps its value.
\<close>

definition Input_fingerprint :: "int list \<Rightarrow> string \<Rightarrow> string \<Rightarrow> (error + 64 word) option" where
  "Input_fingerprint columns_args sep l =
     (case split_loop sep l [] of
        None \<Rightarrow> None
      | Some columns \<Rightarrow>
          (let (mn, mx) = min_max columns_args
           in if int (length columns) < mx \<or> mn \<le> 0
              then Some (Inr (MurmurHashNative l))
              else (case concat_columns columns columns_args [] of
                      Inl e \<Rightarrow> Some (Inl e)
                    | Inr hash_string \<Rightarrow> Some (Inr (MurmurHashNative hash_string)))))"

subsection \<open>\<open>Input\<close>: the cache, the child's input and the queue (lines 122 to 141)\<close>

text \<open>
  A \<open>StringPiece\<close> is \<open>None\<close> while its data pointer is null (the slot is absent) and
  holds bytes afterwards. The cache maps a fingerprint to its slot. A queue entry points
  at a slot of the cache; \<open>std::unordered_map\<close> never moves its elements, so the pointer
  is modelled by the fingerprint that owns the slot. The null entry is the poison.
\<close>

type_synonym StringPiece = "string option"

type_synonym QueueEntry = "64 word option"

text \<open>
  What \<open>Input\<close> does to the outside, in the order it does it: bytes written to the
  child's input stream (\<open>process << l << '\n'\<close>, recorded without the newline),
  \<open>process.Flush()\<close>, \<open>queue.Produce\<close>, and \<open>process_input.reset()\<close>, which closes the
  child's standard input.
\<close>

datatype event =
    ProcessWrite string
  | ProcessFlush
  | Produce QueueEntry
  | ProcessInputReset

record Input_state =
  cache :: "64 word \<rightharpoonup> StringPiece"
  flush_count :: "64 word"
  events :: "event list"

fun produced :: "event list \<Rightarrow> QueueEntry list" where
  "produced [] = []"
| "produced (Produce q # evs) = q # produced evs"
| "produced (_ # evs) = produced evs"

fun written :: "event list \<Rightarrow> string list" where
  "written [] = []"
| "written (ProcessWrite l # evs) = l # written evs"
| "written (_ # evs) = written evs"

text \<open>
  Lines 122 to 135, for a line \<open>l\<close> with fingerprint \<open>fp\<close>. \<open>cache.insert(entry)\<close>
  inserts a null \<open>StringPiece\<close> when the fingerprint is new and changes nothing otherwise;
  \<open>entry.second\<close> is never assigned, so the inserted slot is always absent. The counter
  \<open>flush_count\<close> is a \<open>size_t\<close>.
\<close>

definition Input_line :: "64 word \<Rightarrow> string \<Rightarrow> 64 word \<Rightarrow> Input_state \<Rightarrow> Input_state" where
  "Input_line flush_rate l fp st =
     (case cache st fp of
        Some slot \<Rightarrow> st\<lparr>events := events st @ [Produce (Some fp)]\<rparr>
      | None \<Rightarrow>
          (let count = flush_count st - 1
           in st\<lparr>cache := (cache st)(fp \<mapsto> None),
                 flush_count := (if count = 0 then flush_rate else count),
                 events := events st @ [ProcessWrite l]
                             @ (if count = 0 then [ProcessFlush] else [])
                             @ [Produce (Some fp)]\<rparr>))"

text \<open>The loop of line 86 over the lines that \<open>util::FilePiece\<close> yields from standard input.\<close>

fun Input_lines ::
  "int list \<Rightarrow> string \<Rightarrow> 64 word \<Rightarrow> string list \<Rightarrow> Input_state \<Rightarrow> (error + Input_state) option"
where
  "Input_lines columns_args sep flush_rate [] st = Some (Inr st)"
| "Input_lines columns_args sep flush_rate (l # ls) st =
     (case Input_fingerprint columns_args sep l of
        None \<Rightarrow> None
      | Some (Inl e) \<Rightarrow> Some (Inl e)
      | Some (Inr fp) \<Rightarrow>
          Input_lines columns_args sep flush_rate ls (Input_line flush_rate l fp st))"

text \<open>
  The whole of \<open>Input\<close> (lines 63 to 142): the key columns are parsed first, then the
  lines are processed, then the child's input is closed and the poison is produced. The
  stream \<open>process\<close> goes out of scope before the close; the events record what was
  written to it and in which order, not the moment the bytes reach the child.
\<close>

definition Input ::
  "(64 word \<rightharpoonup> StringPiece) \<Rightarrow> 64 word \<Rightarrow> Options \<Rightarrow> string list \<Rightarrow> (error + Input_state) option"
where
  "Input cache0 flush_rate options stdin_lines =
     (case parse_key (key options) of
        Inl e \<Rightarrow> Some (Inl e)
      | Inr columns_args \<Rightarrow>
          (case Input_lines columns_args (field_separator options) flush_rate stdin_lines
                  \<lparr>cache = cache0, flush_count = flush_rate, events = []\<rparr> of
             None \<Rightarrow> None
           | Some (Inl e) \<Rightarrow> Some (Inl e)
           | Some (Inr st) \<Rightarrow>
               Some (Inr (st\<lparr>events := events st @ [ProcessInputReset, Produce None]\<rparr>))))"

subsection \<open>\<open>Output\<close> (lines 146 to 164)\<close>

text \<open>
  The state of \<open>Output\<close>: the slots of the cache, the lines still to be read from the
  child's standard output, and the bytes written to standard output.

  Modelled from the spec: \<open>util::Pool\<close> and \<open>util::FilePiece\<close> are not among the sources.
  Following the spec, the line read is copied into stable storage and the copy is
  installed, so the slot is present afterwards whatever the bytes are; \<open>ReadLine\<close> yields
  the child's next line without its newline and throws at the end of the stream.
\<close>

record Output_state =
  slots :: "64 word \<rightharpoonup> StringPiece"
  process_output :: "string list"
  out :: string

text \<open>Lines 153 to 162, for a queue entry that points at the slot of \<open>h\<close>.\<close>

definition Output_entry :: "64 word \<Rightarrow> Output_state \<Rightarrow> error + Output_state" where
  "Output_entry h st =
     (case slots st h of
        None \<Rightarrow> Inl dangling_handle
      | Some None \<Rightarrow>
          (case process_output st of
             [] \<Rightarrow> Inl EndOfFileException
           | got # rest \<Rightarrow>
               Inr (st\<lparr>slots := (slots st)(h \<mapsto> Some got),
                       process_output := rest,
                       out := out st @ got @ [CHR 0x0A]\<rparr>))
      | Some (Some val) \<Rightarrow> Inr (st\<lparr>out := out st @ val @ [CHR 0x0A]\<rparr>))"

text \<open>
  The loop of line 152 over the entries the queue delivers. \<open>Consume\<close> blocks on an empty
  queue, so a queue that ends without the poison keeps \<open>Output\<close> waiting for ever.
\<close>

fun Output :: "QueueEntry list \<Rightarrow> Output_state \<Rightarrow> (error + Output_state) option" where
  "Output [] st = None"
| "Output (None # queue) st = Some (Inr st)"
| "Output (Some h # queue) st =
     (case Output_entry h st of
        Inl e \<Rightarrow> Some (Inl e)
      | Inr st' \<Rightarrow> Output queue st')"

subsection \<open>\<open>ParseArgs\<close> and \<open>main\<close> (lines 167 to 216)\<close>

text \<open>
  \<open>boost::program_options\<close> on the two options the source declares, both taking a
  \<open>std::string\<close> that is stored as it is given. The model covers an option word followed by
  its value as the next word; an option given twice, an option without a value and any
  other word are reported as errors (the library has further spellings, such as
  \<open>--key=1\<close>, which no statement below relies on).
\<close>

fun parse_command_line ::
  "string list \<Rightarrow> string option \<Rightarrow> string option \<Rightarrow> error + string option \<times> string option"
where
  "parse_command_line [] k t = Inr (k, t)"
| "parse_command_line [x] k t = Inl program_options_error"
| "parse_command_line (x # v # rest) k t =
     (if x = ''-k'' \<or> x = ''--key''
      then (if k = None then parse_command_line rest (Some v) t else Inl program_options_error)
      else if x = ''-t'' \<or> x = ''--field_separator''
      then (if t = None then parse_command_line rest k (Some v) else Inl program_options_error)
      else Inl program_options_error)"

definition ParseArgs :: "string list \<Rightarrow> error + Options" where
  "ParseArgs argv =
     (case parse_command_line (tl argv) None None of
        Inl e \<Rightarrow> Inl e
      | Inr (k, t) \<Rightarrow>
          Inr \<lparr>key = (case k of None \<Rightarrow> ''-1'' | Some v \<Rightarrow> v),
               field_separator = (case t of None \<Rightarrow> [CHR 0x09] | Some v \<Rightarrow> v)\<rparr>)"

text \<open>Lines 184 to 194: how many leading words of \<open>argv\<close> the wrapper keeps for itself.\<close>

definition is_option :: "string \<Rightarrow> bool" where
  "is_option s = (s = ''-k'' \<or> s = ''-t'' \<or> s = ''--key'' \<or> s = ''--field_separator'')"

definition skip_args :: "string list \<Rightarrow> nat" where
  "skip_args argv =
     (let skip1 = (if is_option (argv ! 1) then 1 + 2 else 1)
      in if length argv > 3 \<and> is_option (argv ! 3) then skip1 + 2 else skip1)"

text \<open>\<open>argv + skip_args\<close>, the vector that \<open>Launch\<close> hands to \<open>execvp\<close>.\<close>

definition child_argv :: "string list \<Rightarrow> string list" where
  "child_argv argv = drop (skip_args argv) argv"

text \<open>
  The macros of \<open>sys/wait.h\<close> on the status that \<open>waitpid\<close> stores, and lines 211 to 215.
\<close>

definition WIFEXITED :: "32 word \<Rightarrow> bool" where
  "WIFEXITED status = (status AND 0x7f = 0)"

definition WEXITSTATUS :: "32 word \<Rightarrow> int" where
  "WEXITSTATUS status = uint (drop_bit 8 (status AND 0xff00))"

definition main_return :: "32 word \<Rightarrow> int" where
  "main_return status = (if WIFEXITED status then WEXITSTATUS status else 256)"

text \<open>
  \<open>main_return\<close> is the \<open>int\<close> that \<open>main\<close> returns. The exit status of the wrapper,
  which is what the process that waits for it sees, keeps the low eight bits of that
  value only (\<open>status & 0377\<close>).
\<close>

definition wrapper_exit_status :: "32 word \<Rightarrow> int" where
  "wrapper_exit_status status = main_return status mod 256"

text \<open>
  The status of a child that left through \<open>exit(code)\<close>, and of a child that a signal
  killed (with or without a core dump), as the kernel encodes them.
\<close>

definition exited_status :: "8 word \<Rightarrow> 32 word" where
  "exited_status code = push_bit 8 (ucast code)"

definition signaled_status :: "32 word \<Rightarrow> bool \<Rightarrow> 32 word" where
  "signaled_status sig core = (sig AND 0x7f) OR (if core then 0x80 else 0)"

text \<open>
  The two workers. \<open>Input\<close> runs in a thread of its own beside \<open>Output\<close>; \<open>Input\<close> never
  reads a slot and \<open>Output\<close> reads only the queue and the child's output, so what the
  workers compute does not depend on how they interleave, and the model runs \<open>Input\<close>,
  then the child, then \<open>Output\<close>. The child is the function from all the lines written
  to its standard input to all the lines it writes to its standard output. A run that
  gets to its end is described by what the child has read, what the wrapper has written
  and the wrapper's exit status.
\<close>

definition kFlushRate :: "64 word" where
  "kFlushRate = 4096"

record finished =
  child_stdin :: "string list"
  stdout :: string
  exit_code :: int

definition workers ::
  "Options \<Rightarrow> string list \<Rightarrow> (string list \<Rightarrow> string list) \<Rightarrow> 32 word \<Rightarrow> (error + finished) option"
where
  "workers opt stdin_lines child status =
     (case Input Map.empty kFlushRate opt stdin_lines of
        None \<Rightarrow> None
      | Some (Inl e) \<Rightarrow> Some (Inl e)
      | Some (Inr ist) \<Rightarrow>
          (case Output (produced (events ist))
                  \<lparr>slots = cache ist,
                   process_output = child (written (events ist)),
                   out = []\<rparr> of
             None \<Rightarrow> None
           | Some (Inl e) \<Rightarrow> Some (Inl e)
           | Some (Inr ost) \<Rightarrow>
               Some (Inr \<lparr>child_stdin = written (events ist),
                          stdout = out ost,
                          exit_code = wrapper_exit_status status\<rparr>)))"

text \<open>
  \<open>main\<close>. \<open>launched\<close> is the vector given to \<open>Launch\<close>, \<open>None\<close> when \<open>main\<close> fails before
  it gets there. \<open>std::string s1(argv[1])\<close> throws on the null slot of a command line
  without arguments; a count \<open>skip_args\<close> beyond \<open>argc\<close> hands null slots to the parser.
  \<open>ParseArgs\<close> is told to read the first \<open>skip_args\<close> words (the copy of line 196 moves
  one word more than \<open>partArgs\<close> holds, which the model leaves aside). \<open>waitpid\<close> is taken
  to succeed, and \<open>status\<close> is what it stores.
\<close>

record run =
  launched :: "string list option"
  outcome :: "(error + finished) option"

definition main ::
  "string list \<Rightarrow> string list \<Rightarrow> (string list \<Rightarrow> string list) \<Rightarrow> 32 word \<Rightarrow> run"
where
  "main argv stdin_lines child status =
     (if length argv < 2 \<or> length argv < skip_args argv
      then \<lparr>launched = None, outcome = Some (Inl logic_error)\<rparr>
      else (case ParseArgs (take (skip_args argv) argv) of
              Inl e \<Rightarrow> \<lparr>launched = None, outcome = Some (Inl e)\<rparr>
            | Inr opt \<Rightarrow>
                \<lparr>launched = Some (child_argv argv),
                 outcome = workers opt stdin_lines child status\<rparr>))"

subsection \<open>Notions used to state the properties\<close>

text \<open>
  The fields of a line: the line is cut at the leftmost occurrence of the separator, and
  the rest is cut in the same way; a field may be empty. An empty separator cuts nothing.
\<close>

function split_fields :: "string \<Rightarrow> string \<Rightarrow> string list" where
  "split_fields sep s =
     (if sep = [] then [s]
      else (case str_find s sep of
              None \<Rightarrow> [s]
            | Some pos \<Rightarrow> take pos s # split_fields sep (drop (pos + length sep) s)))"
  by pat_completeness auto
termination
proof (relation "measure (\<lambda>(sep, s). length s)")
  show "wf (measure (\<lambda>(sep, s). length s))"
    by simp
next
  fix sep s :: string and pos :: nat
  assume nonempty: "sep \<noteq> []" and found: "str_find s sep = Some pos"
  have "str_find t sep = Some p \<Longrightarrow> p + length sep \<le> length t" for t p
    by (induction t arbitrary: p) (auto split: if_splits dest: prefix_length_le)
  from this [OF found] nonempty
  show "((sep, drop (pos + length sep) s), (sep, s)) \<in> measure (\<lambda>(sep, s). length s)"
    by (cases sep) auto
qed

declare split_fields.simps [simp del]

text \<open>The fields put together again, with the separator between neighbours.\<close>

fun join_fields :: "string \<Rightarrow> string list \<Rightarrow> string" where
  "join_fields sep [] = []"
| "join_fields sep [x] = x"
| "join_fields sep (x # y # ys) = x @ sep @ join_fields sep (y # ys)"

text \<open>
  The greatest requested column, 0 when none is positive, and the least one
  (\<open>INT_MAX\<close> when there is none below it).
\<close>

definition key_max :: "int list \<Rightarrow> int" where
  "key_max columns_args = fold max columns_args 0"

definition key_min :: "int list \<Rightarrow> int" where
  "key_min columns_args = fold min columns_args INT_MAX"

text \<open>
  The fingerprint policy in the words of the specification: the whole line when the
  greatest column is 0 or the least is not positive, the whole line when the line has
  fewer fields than the greatest column, and otherwise the requested fields in the order
  given, with nothing between them.
\<close>

definition line_fingerprint :: "int list \<Rightarrow> string \<Rightarrow> string \<Rightarrow> 64 word" where
  "line_fingerprint columns_args sep l =
     (if key_max columns_args = 0 \<or> key_min columns_args \<le> 0 then MurmurHashNative l
      else if key_max columns_args \<le> int (length (split_fields sep l))
      then MurmurHashNative (concat (map (\<lambda>i. split_fields sep l ! nat (i - 1)) columns_args))
      else MurmurHashNative l)"

text \<open>
  The conversion of a list of pieces by \<open>std::stoi\<close>, stopping at the first piece that
  is rejected.
\<close>

fun stoi_all :: "string list \<Rightarrow> error + int list" where
  "stoi_all [] = Inr []"
| "stoi_all (t # ts) =
     (case stoi t of
        Inl e \<Rightarrow> Inl e
      | Inr v \<Rightarrow> (case stoi_all ts of Inl e \<Rightarrow> Inl e | Inr vs \<Rightarrow> Inr (v # vs)))"

text \<open>
  The elements of a list whose key \<open>f x\<close> is neither in \<open>seen\<close> nor the key of an earlier
  element: the first occurrence of every new key, in the order of the list.
\<close>

fun novel :: "('a \<Rightarrow> 'k) \<Rightarrow> 'k set \<Rightarrow> 'a list \<Rightarrow> 'a list" where
  "novel f seen [] = []"
| "novel f seen (x # xs) =
     (if f x \<in> seen then novel f seen xs else x # novel f (insert (f x) seen) xs)"

text \<open>
  The positions of the elements that have no earlier element with the same key.
\<close>

definition forwarded_positions :: "('a \<Rightarrow> 'k) \<Rightarrow> 'a list \<Rightarrow> nat list" where
  "forwarded_positions f xs =
     filter (\<lambda>i. f (xs ! i) \<notin> set (map f (take i xs))) [0..<length xs]"

text \<open>The first position of \<open>x\<close> in a list (the length of the list when \<open>x\<close> is not in it).\<close>

fun index_of :: "'a \<Rightarrow> 'a list \<Rightarrow> nat" where
  "index_of x [] = 0"
| "index_of x (y # ys) = (if x = y then 0 else Suc (index_of x ys))"

text \<open>
  What \<open>Output\<close> emits for the slot of \<open>k\<close>: the bytes of a present slot; for an absent
  slot the line of the child that answers the slot's first appearance, \<open>pend\<close> being the
  absent slots in the order in which the queue first names them.
\<close>

definition reply ::
  "(64 word \<rightharpoonup> StringPiece) \<Rightarrow> 64 word list \<Rightarrow> string list \<Rightarrow> 64 word \<Rightarrow> string"
where
  "reply sl pend rs k = (case sl k of Some (Some v) \<Rightarrow> v | _ \<Rightarrow> rs ! index_of k pend)"

text \<open>The bytes of a sequence of lines, each followed by a newline.\<close>

definition unlines :: "string list \<Rightarrow> string" where
  "unlines ls = concat (map (\<lambda>l. l @ [CHR 0x0A]) ls)"

text \<open>The child's contract: it writes one line for every line it reads.\<close>

definition one_line_in_one_line_out :: "(string list \<Rightarrow> string list) \<Rightarrow> bool" where
  "one_line_in_one_line_out child = (\<forall>ls. length (child ls) = length ls)"

section \<open>Properties\<close>

subsection \<open>Finding and splitting\<close>

lemma str_find_empty_pattern: "str_find s [] = Some 0"
  by (cases s) simp_all

lemma str_find_bound: "str_find s pat = Some pos \<Longrightarrow> pos + length pat \<le> length s"
  by (induction s arbitrary: pos) (auto split: if_splits dest: prefix_length_le)

lemma str_find_occurs: "str_find s pat = Some pos \<Longrightarrow> take (length pat) (drop pos s) = pat"
proof (induction s arbitrary: pos)
  case Nil
  then show ?case by (simp split: if_splits)
next
  case (Cons c cs)
  show ?case
  proof (cases "prefix pat (c # cs)")
    case True
    with Cons.prems have "pos = 0" by simp
    with True show ?thesis by (auto simp: prefix_def)
  next
    case False
    with Cons.prems obtain p where "str_find cs pat = Some p" "pos = Suc p"
      by auto
    with Cons.IH show ?thesis by simp
  qed
qed

lemma split_loop_returns:
  "sep \<noteq> [] \<Longrightarrow> split_loop sep s columns = Some (columns @ split_fields sep s)"
proof (induction sep s arbitrary: columns rule: split_fields.induct)
  case (1 sep s)
  show ?case
  proof (cases "str_find s sep")
    case None
    with "1.prems" show ?thesis
      by (subst split_loop.simps, subst split_fields.simps) simp
  next
    case (Some pos)
    with "1.prems" "1.IH" [OF "1.prems" Some "1.prems"] show ?thesis
      by (subst split_loop.simps, subst split_fields.simps) simp
  qed
qed

lemma split_loop_needs_separator:
  assumes "split_loop sep s columns = Some y"
  shows "sep \<noteq> []"
proof (rule split_loop.raw_induct [where P = "\<lambda>sep s columns y. sep \<noteq> []", OF _ assms])
  fix loop :: "string \<Rightarrow> string \<Rightarrow> string list \<Rightarrow> string list option"
    and sep s :: string and columns y :: "string list"
  assume IH: "\<And>sep s columns y. loop sep s columns = Some y \<Longrightarrow> sep \<noteq> []"
    and body: "(case str_find s sep of
                  None \<Rightarrow> Some (columns @ [s])
                | Some pos \<Rightarrow> loop sep (drop (pos + length sep) s) (columns @ [take pos s]))
               = Some y"
  show "sep \<noteq> []"
  proof
    assume "sep = []"
    with body have "loop [] s (columns @ [[]]) = Some y"
      by (simp add: str_find_empty_pattern)
    from IH [OF this] show False by simp
  qed
qed

lemma split_loop_empty_separator: "split_loop [] s columns = None"
  using split_loop_needs_separator [of "[]" s columns] by (cases "split_loop [] s columns") auto

subsection \<open>The key columns\<close>

lemma min_max_fold:
  "foldl (\<lambda>(mn, mx) i. (if i < mn then i else mn, if i > mx then i else mx))
     (a :: int, b :: int) cols
     = (fold min cols a, fold max cols b)"
  by (induction cols arbitrary: a b) (auto simp: min_def max_def)

lemma min_max_eq: "min_max columns_args = (key_min columns_args, key_max columns_args)"
  by (simp add: min_max_def key_min_def key_max_def min_max_fold)

lemma key_max_Max: "key_max columns_args = Max (set (0 # columns_args))"
  by (simp only: key_max_def Max.set_eq_fold)

lemma key_min_Min: "key_min columns_args = Min (set (INT_MAX # columns_args))"
  by (simp only: key_min_def Min.set_eq_fold)

lemma key_max_nonneg: "0 \<le> key_max columns_args"
  by (simp add: key_max_Max)

lemma key_max_ge: "i \<in> set columns_args \<Longrightarrow> i \<le> key_max columns_args"
  by (simp add: key_max_Max)

lemma key_min_le: "i \<in> set columns_args \<Longrightarrow> key_min columns_args \<le> i"
  by (simp add: key_min_Min)

lemma key_max_zero:
  "columns_args \<noteq> [] \<Longrightarrow> key_max columns_args = 0 \<Longrightarrow> key_min columns_args \<le> 0"
proof -
  assume "columns_args \<noteq> []" and zero: "key_max columns_args = 0"
  then obtain i where i: "i \<in> set columns_args"
    by (cases columns_args) auto
  from key_max_ge [OF i] zero key_min_le [OF i] show ?thesis by simp
qed

lemma parse_key_loop_nonempty: "parse_key_loop s acc = Inr cols \<Longrightarrow> cols \<noteq> []"
proof (induction s acc rule: parse_key_loop.induct)
  case (1 s_args columns_args)
  from "1.prems" show ?case
    by (subst (asm) parse_key_loop.simps) (auto split: option.splits sum.splits dest: "1.IH")
qed

lemma parse_key_nonempty: "parse_key k = Inr cols \<Longrightarrow> cols \<noteq> []"
  unfolding parse_key_def by (rule parse_key_loop_nonempty)

subsection \<open>The fingerprint\<close>

lemma concat_columns_in_range:
  "\<forall>i\<in>set is. 0 < i \<and> i \<le> int (length columns) \<Longrightarrow>
     concat_columns columns is hash_string
       = Inr (hash_string @ concat (map (\<lambda>i. columns ! nat (i - 1)) is))"
  by (induction "is" arbitrary: hash_string) auto

lemma Input_fingerprint_returns:
  assumes "sep \<noteq> []" and "columns_args \<noteq> []"
  shows "Input_fingerprint columns_args sep l = Some (Inr (line_fingerprint columns_args sep l))"
proof (cases "int (length (split_fields sep l)) < key_max columns_args \<or> key_min columns_args \<le> 0")
  case True
  with assms key_max_nonneg [of columns_args] show ?thesis
    by (auto simp: Input_fingerprint_def line_fingerprint_def split_loop_returns min_max_eq)
next
  case False
  then have "\<forall>i\<in>set columns_args. 0 < i \<and> i \<le> int (length (split_fields sep l))"
    using key_max_ge key_min_le by fastforce
  from concat_columns_in_range [OF this, of "[]"] False assms key_max_zero [OF assms(2)]
  show ?thesis
    by (auto simp: Input_fingerprint_def line_fingerprint_def split_loop_returns min_max_eq)
qed

subsection \<open>The empty separator\<close>

lemma parse_key_default: "parse_key ''-1'' = Inr [- 1]"
  by code_simp

lemma Input_fingerprint_empty_separator: "Input_fingerprint columns_args [] l = None"
  by (simp add: Input_fingerprint_def split_loop_empty_separator)

lemma skip_args_one_option:
  "is_option o1 \<Longrightarrow> \<not> is_option cmd \<Longrightarrow> skip_args (prog # o1 # v1 # cmd # args) = 3"
  by (simp add: skip_args_def)

lemma main_empty_separator:
  assumes "\<not> is_option cmd"
  shows "outcome (main (prog # ''-t'' # [] # cmd # args) (l # ls) child status) = None"
proof -
  have skip: "skip_args (prog # ''-t'' # [] # cmd # args) = 3"
    using assms by (simp add: skip_args_one_option is_option_def)
  have opts: "ParseArgs [prog, ''-t'', []] = Inr \<lparr>key = ''-1'', field_separator = []\<rparr>"
    by (simp add: ParseArgs_def)
  show ?thesis
    by (simp add: main_def skip opts workers_def Input_def parse_key_default
        Input_fingerprint_empty_separator)
qed

text \<open>
  Claim C10. The splitting loop of \<open>Input\<close> returns for every line when the field
  separator is not empty, and it yields the fields of the line. The condition is needed:
  with the empty separator \<open>find\<close> answers 0 and \<open>erase\<close> removes nothing, so the loop
  never returns, whatever the line. The empty separator can be given on the command line
  (\<open>-t\<close> followed by an empty word), and then \<open>main\<close> does not return as soon as there
  is a line to read.
\<close>

theorem split_loop_terminates_iff_separator:
  "(sep \<noteq> [] \<longrightarrow> split_loop sep l [] = Some (split_fields sep l)) \<and>
   (sep = [] \<longrightarrow> split_loop sep l [] = None) \<and>
   (\<not> is_option cmd \<longrightarrow>
      outcome (main (prog # ''-t'' # [] # cmd # args) (l # ls) child status) = None)"
  using split_loop_returns [of sep l "[]"] split_loop_empty_separator [of l "[]"]
    main_empty_separator [of cmd prog args l ls child status]
  by simp

theorem split_loop_terminates_iff_separator_witness:
  "split_loop '','' ''a,,b'' [] = Some [''a'', [], ''b''] \<and>
   split_loop [] ''a,,b'' [] = None \<and>
   outcome (main [''cache'', ''-t'', [], ''cat''] [''a,,b''] (\<lambda>ls. ls) 0) = None"
proof -
  have fields: "split_fields '','' ''a,,b'' = [''a'', [], ''b'']"
    by code_simp
  have cmd: "\<not> is_option ''cat''"
    by (simp add: is_option_def)
  from split_loop_terminates_iff_separator
         [of "'',''" "''a,,b''" "''cat''" "''cache''" "[]" "[]" "\<lambda>ls. ls" 0]
    split_loop_terminates_iff_separator
         [of "[]" "''a,,b''" "''cat''" "''cache''" "[]" "[]" "\<lambda>ls. ls" 0]
    fields cmd
  show ?thesis by simp
qed

subsection \<open>The fields of a line\<close>

lemma split_fields_nonempty: "split_fields sep s \<noteq> []"
  by (subst split_fields.simps) (simp split: option.split)

lemma join_fields_Cons: "ys \<noteq> [] \<Longrightarrow> join_fields sep (x # ys) = x @ sep @ join_fields sep ys"
  by (cases ys) simp_all

lemma str_find_cut:
  assumes "str_find s sep = Some pos"
  shows "take pos s @ sep @ drop (pos + length sep) s = s"
proof -
  have "drop pos s = take (length sep) (drop pos s) @ drop (length sep) (drop pos s)"
    by (simp only: append_take_drop_id)
  also have "\<dots> = sep @ drop (pos + length sep) s"
    by (simp only: str_find_occurs [OF assms] drop_drop add.commute)
  finally have "take pos s @ drop pos s = take pos s @ sep @ drop (pos + length sep) s"
    by simp
  then show ?thesis
    by (simp only: append_take_drop_id)
qed

lemma split_fields_join: "join_fields sep (split_fields sep s) = s"
proof (induction sep s rule: split_fields.induct)
  case (1 sep s)
  show ?case
  proof (cases "sep = []")
    case True
    then show ?thesis by (subst split_fields.simps) simp
  next
    case False
    show ?thesis
    proof (cases "str_find s sep")
      case None
      with False show ?thesis by (subst split_fields.simps) simp
    next
      case (Some pos)
      with False "1.IH" [OF False Some] str_find_cut [OF Some] show ?thesis
        by (subst split_fields.simps) (simp add: join_fields_Cons split_fields_nonempty)
    qed
  qed
qed

text \<open>
  Claim C3, as stated, fails for the empty field separator, which \<open>-t\<close> followed by an
  empty word gives. The line is split before the columns are looked at, so even with the
  default key \<open>-1\<close>, whose least column is not positive, no fingerprint is computed: the
  splitting loop does not return.
\<close>

theorem fingerprint_of_every_key_spec_counterexample:
  "ParseArgs [''cache'', ''-t'', []] = Inr \<lparr>key = ''-1'', field_separator = []\<rparr> \<and>
   parse_key ''-1'' = Inr [- 1] \<and>
   min_max [- 1] = (- 1, 0) \<and>
   Input_fingerprint [- 1] [] ''a'' = None \<and>
   Input_fingerprint [- 1] [] ''a'' \<noteq> Some (Inr (MurmurHashNative ''a''))"
proof -
  have "min_max [- 1] = (- 1, 0)"
    by (simp add: min_max_def INT_MAX_def)
  then show ?thesis
    by (simp add: ParseArgs_def parse_key_default Input_fingerprint_empty_separator)
qed

text \<open>
  Claim C3, amended. For every line, every field separator that is not empty and every
  list of key columns (the list that \<open>Input\<close> builds is never empty), \<open>Input\<close> computes
  this fingerprint: the hash of the whole line when the greatest column is 0 or the least
  is not positive; otherwise the line is split at the separator, empty fields kept (the
  fields joined by the separator give the line back), and the fingerprint is the hash of
  the requested fields, in the order given and with nothing between them, when the line
  has at least as many fields as the greatest column, and the hash of the whole line
  when it has fewer.
\<close>

theorem Input_fingerprint_policy:
  assumes "sep \<noteq> []" and "columns_args \<noteq> []"
  shows "Input_fingerprint columns_args sep l =
           Some (Inr
             (if key_max columns_args = 0 \<or> key_min columns_args \<le> 0
              then MurmurHashNative l
              else if key_max columns_args \<le> int (length (split_fields sep l))
              then MurmurHashNative
                     (concat (map (\<lambda>i. split_fields sep l ! nat (i - 1)) columns_args))
              else MurmurHashNative l))
         \<and> join_fields sep (split_fields sep l) = l"
  using Input_fingerprint_returns [OF assms, of l] split_fields_join [of sep l]
  by (simp add: line_fingerprint_def)

theorem Input_fingerprint_policy_witness:
  "Input_fingerprint [1, 3] '','' ''a,,b'' = Some (Inr (MurmurHashNative ''ab'')) \<and>
   Input_fingerprint [3, 1] '','' ''a,,b'' = Some (Inr (MurmurHashNative ''ba'')) \<and>
   Input_fingerprint [- 1] '','' ''a,,b'' = Some (Inr (MurmurHashNative ''a,,b'')) \<and>
   Input_fingerprint [5] '','' ''a,,b'' = Some (Inr (MurmurHashNative ''a,,b'')) \<and>
   join_fields '','' [''a'', [], ''b''] = ''a,,b''"
proof -
  have fields: "split_fields '','' ''a,,b'' = [''a'', [], ''b'']"
    by code_simp
  have keys: "key_max [1, 3] = 3" "key_min [1, 3] = 1" "key_max [3, 1] = 3" "key_min [3, 1] = 1"
    "key_min [- 1] = - 1" "key_max [5] = 5" "key_min [5] = 5"
    by (simp_all add: key_max_def key_min_def INT_MAX_def)
  from Input_fingerprint_policy [of "'',''" "[1, 3]" "''a,,b''"]
    Input_fingerprint_policy [of "'',''" "[3, 1]" "''a,,b''"]
    Input_fingerprint_policy [of "'',''" "[- 1]" "''a,,b''"]
    Input_fingerprint_policy [of "'',''" "[5]" "''a,,b''"]
    fields keys
  show ?thesis by simp
qed




subsection \<open>The \<open>Input\<close> worker\<close>

lemma produced_append: "produced (a @ b) = produced a @ produced b"
  by (induction a rule: produced.induct) simp_all

lemma written_append: "written (a @ b) = written a @ written b"
  by (induction a rule: written.induct) simp_all

lemma Input_lines_returns:
  assumes "sep \<noteq> []" and "columns_args \<noteq> []"
  shows "Input_lines columns_args sep flush_rate ls st
           = Some (Inr (foldl (\<lambda>st l. Input_line flush_rate l (line_fingerprint columns_args sep l) st) st ls))"
  by (induction ls arbitrary: st) (simp_all add: Input_fingerprint_returns [OF assms])

lemma Input_line_produced:
  "produced (events (Input_line flush_rate l fp st)) = produced (events st) @ [Some fp]"
  by (simp add: Input_line_def Let_def produced_append split: option.split)

lemma Input_line_written:
  "written (events (Input_line flush_rate l fp st))
     = written (events st) @ (if fp \<in> dom (cache st) then [] else [l])"
  by (auto simp: Input_line_def Let_def written_append split: option.split)

lemma Input_line_dom: "dom (cache (Input_line flush_rate l fp st)) = insert fp (dom (cache st))"
  by (auto simp: Input_line_def Let_def split: option.split)

lemma Input_line_cache:
  "cache (Input_line flush_rate l fp st) k
     = (if k = fp \<and> cache st k = None then Some None else cache st k)"
  by (auto simp: Input_line_def Let_def split: option.split)

lemma Input_line_events:
  "\<exists>evs. events (Input_line flush_rate l fp st) = events st @ evs
         \<and> ProcessInputReset \<notin> set evs \<and> Produce None \<notin> set evs"
  by (auto simp: Input_line_def Let_def split: option.split)

lemma foldl_Input_line_produced:
  "produced (events (foldl (\<lambda>st l. Input_line flush_rate l (fp l) st) st ls))
     = produced (events st) @ map (\<lambda>l. Some (fp l)) ls"
  by (induction ls arbitrary: st) (simp_all add: Input_line_produced)

lemma foldl_Input_line_written:
  "written (events (foldl (\<lambda>st l. Input_line flush_rate l (fp l) st) st ls))
     = written (events st) @ novel fp (dom (cache st)) ls"
  by (induction ls arbitrary: st) (simp_all add: Input_line_written Input_line_dom insert_absorb)

lemma foldl_Input_line_cache:
  "cache (foldl (\<lambda>st l. Input_line flush_rate l (fp l) st) st ls) k
     = (if k \<in> fp ` set ls \<and> cache st k = None then Some None else cache st k)"
  by (induction ls arbitrary: st) (auto simp: Input_line_cache)

lemma foldl_Input_line_events:
  "\<exists>evs. events (foldl (\<lambda>st l. Input_line flush_rate l (fp l) st) st ls) = events st @ evs
         \<and> ProcessInputReset \<notin> set evs \<and> Produce None \<notin> set evs"
proof (induction ls arbitrary: st)
  case Nil
  then show ?case by simp
next
  case (Cons l ls)
  obtain evs1 where 1: "events (Input_line flush_rate l (fp l) st) = events st @ evs1"
      "ProcessInputReset \<notin> set evs1" "Produce None \<notin> set evs1"
    using Input_line_events by blast
  obtain evs2 where 2: "events (foldl (\<lambda>st l. Input_line flush_rate l (fp l) st)
                                  (Input_line flush_rate l (fp l) st) ls)
                         = events (Input_line flush_rate l (fp l) st) @ evs2"
      "ProcessInputReset \<notin> set evs2" "Produce None \<notin> set evs2"
    using Cons.IH by blast
  from 1 2 show ?case
    by (intro exI [of _ "evs1 @ evs2"]) simp
qed


lemma Input_returns:
  assumes "parse_key (key options) = Inr columns_args" and "field_separator options \<noteq> []"
  shows "Input cache0 flush_rate options stdin_lines =
           Some (Inr ((foldl (\<lambda>st l. Input_line flush_rate l
                                 (line_fingerprint columns_args (field_separator options) l) st)
                         \<lparr>cache = cache0, flush_count = flush_rate, events = []\<rparr> stdin_lines)
                      \<lparr>events := events (foldl (\<lambda>st l. Input_line flush_rate l
                                 (line_fingerprint columns_args (field_separator options) l) st)
                         \<lparr>cache = cache0, flush_count = flush_rate, events = []\<rparr> stdin_lines)
                         @ [ProcessInputReset, Produce None]\<rparr>))"
  using assms
  by (simp add: Input_def Input_lines_returns [OF assms(2) parse_key_nonempty [OF assms(1)]])

text \<open>
  Claim C5, as stated, fails in two kinds of runs. With a \<open>--key\<close> value that
  \<open>std::stoi\<close> rejects, \<open>Input\<close> is left by the exception before it reads a line; with
  the empty field separator it never gets past its first line. In both, nothing is put
  in the queue, the child's input is not closed and no poison follows.
\<close>

theorem one_queue_item_per_line_in_every_run_counterexample:
  "Input Map.empty kFlushRate \<lparr>key = ''1,x'', field_separator = [CHR 0x09]\<rparr> [''a'', ''b'']
     = Some (Inl invalid_argument) \<and>
   Input Map.empty kFlushRate \<lparr>key = ''-1'', field_separator = []\<rparr> [''a'', ''b''] = None"
proof -
  have "parse_key ''1,x'' = Inl invalid_argument"
    by code_simp
  then show ?thesis
    by (simp add: Input_def parse_key_default Input_fingerprint_empty_separator)
qed

text \<open>
  Claim C5, amended. In every run in which \<open>Input\<close> gets to its lines (the \<open>--key\<close> value
  is accepted by the conversion at the head of \<open>Input\<close>, and the field separator is not
  empty), \<open>Input\<close> returns, and the queue holds exactly one entry per input line, in the
  order of the lines, each pointing at the slot of its line's fingerprint, followed by
  exactly one poison entry. The poison is the last thing \<open>Input\<close> does, right after it
  has closed the child's standard input; nothing before is a poison or a close.
\<close>

theorem Input_one_queue_item_per_line:
  assumes "parse_key (key options) = Inr columns_args" and "field_separator options \<noteq> []"
  shows "\<exists>st evs. Input cache0 flush_rate options stdin_lines = Some (Inr st)
           \<and> produced (events st)
               = map (\<lambda>l. Some (line_fingerprint columns_args (field_separator options) l))
                   stdin_lines @ [None]
           \<and> events st = evs @ [ProcessInputReset, Produce None]
           \<and> ProcessInputReset \<notin> set evs \<and> Produce None \<notin> set evs"
proof -
  let ?fp = "line_fingerprint columns_args (field_separator options)"
  let ?st0 = "\<lparr>cache = cache0, flush_count = flush_rate, events = []\<rparr>"
  let ?st1 = "foldl (\<lambda>st l. Input_line flush_rate l (?fp l) st) ?st0 stdin_lines"
  obtain evs where evs: "events ?st1 = events ?st0 @ evs"
      "ProcessInputReset \<notin> set evs" "Produce None \<notin> set evs"
    using foldl_Input_line_events [of flush_rate ?fp ?st0 stdin_lines] by blast
  have "produced (events ?st1) = map (\<lambda>l. Some (?fp l)) stdin_lines"
    using foldl_Input_line_produced [of flush_rate ?fp ?st0 stdin_lines] by simp
  with evs Input_returns [OF assms, of cache0 flush_rate stdin_lines] show ?thesis
    by (simp add: produced_append)
qed

theorem Input_one_queue_item_per_line_witness:
  "\<exists>st evs. Input Map.empty 2 \<lparr>key = ''-1'', field_separator = '',''\<rparr> [''a'', ''b'', ''a'']
               = Some (Inr st)
     \<and> produced (events st)
         = [Some (MurmurHashNative ''a''), Some (MurmurHashNative ''b''),
            Some (MurmurHashNative ''a''), None]
     \<and> events st = evs @ [ProcessInputReset, Produce None]
     \<and> ProcessInputReset \<notin> set evs \<and> Produce None \<notin> set evs"
proof -
  have key: "parse_key (key \<lparr>key = ''-1'', field_separator = '',''\<rparr>) = Inr [- 1]"
    by (simp add: parse_key_default)
  have sep: "field_separator \<lparr>key = ''-1'', field_separator = '',''\<rparr> \<noteq> []"
    by simp
  have fp: "line_fingerprint [- 1] '','' l = MurmurHashNative l" for l
    by (simp add: line_fingerprint_def key_min_def INT_MAX_def)
  from Input_one_queue_item_per_line [OF key sep, of Map.empty 2 "[''a'', ''b'', ''a'']"] fp
  show ?thesis by simp
qed

subsection \<open>The \<open>Output\<close> worker\<close>

lemma unlines_Cons: "unlines (l # ls) = l @ [CHR 0x0A] @ unlines ls"
  by (simp add: unlines_def)

lemma novel_cong:
  "\<forall>x\<in>set xs. f x \<in> S \<longleftrightarrow> f x \<in> T \<Longrightarrow> novel f S xs = novel f T xs"
proof (induction xs arbitrary: S T)
  case Nil
  then show ?case by simp
next
  case (Cons x xs)
  from Cons.prems have "novel f S xs = novel f T xs"
    by (intro Cons.IH) simp
  moreover from Cons.prems
  have "novel f (insert (f x) S) xs = novel f (insert (f x) T) xs"
    by (intro Cons.IH) auto
  ultimately show ?case
    using Cons.prems by simp
qed

lemma novel_map: "map f (novel f S xs) = novel id S (map f xs)"
  by (induction xs arbitrary: S) simp_all

lemma reply_present: "sl k = Some (Some v) \<Longrightarrow> reply sl pend rs k = v"
  by (simp add: reply_def)

lemma reply_absent: "sl k = Some None \<Longrightarrow> reply sl pend rs k = rs ! index_of k pend"
  by (simp add: reply_def)

lemma reply_install:
  "sl k = Some None \<Longrightarrow>
     reply (sl(k \<mapsto> Some got)) pend rest k' = reply sl (k # pend) (got # rest) k'"
  by (auto simp: reply_def split: option.splits)



lemma Output_run:
  assumes "\<forall>k\<in>set ks. slots st k \<noteq> None"
    and "length (novel id {k. slots st k \<noteq> Some None} ks) \<le> length (process_output st)"
  shows "\<exists>st'. Output (map Some ks @ None # later) st = Some (Inr st')
           \<and> out st' = out st @ unlines (map (reply (slots st)
                                    (novel id {k. slots st k \<noteq> Some None} ks)
                                    (process_output st)) ks)"
  using assms
proof (induction ks arbitrary: st)
  case Nil
  then show ?case by (simp add: unlines_def)
next
  case (Cons k ks)
  let ?S = "{k. slots st k \<noteq> Some None}"
  from Cons.prems(1) obtain slot where slot: "slots st k = Some slot"
    by auto
  show ?case
  proof (cases slot)
    case None
    with slot have absent: "slots st k = Some None" by simp
    then have pend: "novel id ?S (k # ks) = k # novel id (insert k ?S) ks"
      by simp
    from Cons.prems(2) have "length (k # novel id (insert k ?S) ks) \<le> length (process_output st)"
      by (simp only: pend)
    then obtain got rest where lines: "process_output st = got # rest"
      by (cases "process_output st") simp_all
    let ?st1 = "st\<lparr>slots := (slots st)(k \<mapsto> Some got), process_output := rest,
                    out := out st @ got @ [CHR 0x0A]\<rparr>"
    have entry: "Output_entry k st = Inr ?st1"
      using absent lines by (simp add: Output_entry_def)
    have S1: "{k'. slots ?st1 k' \<noteq> Some None} = insert k ?S"
      by auto
    have valid1: "\<forall>k'\<in>set ks. slots ?st1 k' \<noteq> None"
      using Cons.prems(1) by simp
    have enough1: "length (novel id {k'. slots ?st1 k' \<noteq> Some None} ks)
                     \<le> length (process_output ?st1)"
      using Cons.prems(2) pend lines by (simp only: S1) simp
    from Cons.IH [OF valid1 enough1] obtain st'
      where run: "Output (map Some ks @ None # later) ?st1 = Some (Inr st')"
        and out: "out st' = out ?st1 @ unlines (map (reply (slots ?st1)
                      (novel id (insert k ?S) ks) (process_output ?st1)) ks)"
      by (auto simp only: S1)
    have same: "map (reply (slots ?st1) (novel id (insert k ?S) ks) (process_output ?st1)) ks
                  = map (reply (slots st) (k # novel id (insert k ?S) ks) (got # rest)) ks"
      using reply_install [of "slots st" k, OF absent] by simp
    have first: "reply (slots st) (k # novel id (insert k ?S) ks) (got # rest) k = got"
      using absent by (simp add: reply_absent)
    show ?thesis
    proof (intro exI conjI)
      show "Output (map Some (k # ks) @ None # later) st = Some (Inr st')"
        using run entry by simp
      show "out st' = out st @ unlines (map (reply (slots st) (novel id ?S (k # ks))
                                  (process_output st)) (k # ks))"
        unfolding pend lines using out [unfolded same] first by (simp add: unlines_Cons)
    qed
  next
    case (Some v)
    with slot have present: "slots st k = Some (Some v)" by simp
    then have pend: "novel id ?S (k # ks) = novel id ?S ks"
      by simp
    let ?st1 = "st\<lparr>out := out st @ v @ [CHR 0x0A]\<rparr>"
    have entry: "Output_entry k st = Inr ?st1"
      using present by (simp add: Output_entry_def)
    have valid1: "\<forall>k'\<in>set ks. slots ?st1 k' \<noteq> None"
      using Cons.prems(1) by simp
    have enough1: "length (novel id {k'. slots ?st1 k' \<noteq> Some None} ks)
                     \<le> length (process_output ?st1)"
      using Cons.prems(2) unfolding pend by simp
    from Cons.IH [OF valid1 enough1] obtain st'
      where run: "Output (map Some ks @ None # later) ?st1 = Some (Inr st')"
        and out: "out st' = out ?st1 @ unlines (map (reply (slots ?st1)
                      (novel id {k'. slots ?st1 k' \<noteq> Some None} ks) (process_output ?st1)) ks)"
      by blast
    show ?thesis
    proof (intro exI conjI)
      show "Output (map Some (k # ks) @ None # later) st = Some (Inr st')"
        using run entry by simp
      show "out st' = out st @ unlines (map (reply (slots st) (novel id ?S (k # ks))
                                  (process_output st)) (k # ks))"
        unfolding pend using out present by (simp add: unlines_Cons reply_present)
    qed
  qed
qed



subsection \<open>The two workers together\<close>

lemma index_of_less: "x \<in> set xs \<Longrightarrow> index_of x xs < length xs"
  by (induction xs) auto

lemma index_of_nth: "x \<in> set xs \<Longrightarrow> xs ! index_of x xs = x"
  by (induction xs) auto

lemma index_of_first: "j < index_of x xs \<Longrightarrow> xs ! j \<noteq> x"
proof (induction xs arbitrary: j)
  case Nil
  then show ?case by simp
next
  case (Cons y ys)
  then show ?case by (cases j) (auto split: if_splits)
qed

lemma index_of_le: "i < length xs \<Longrightarrow> index_of (xs ! i) xs \<le> i"
  using index_of_first [of i "xs ! i" xs] by (meson not_le_imp_less)

lemma novel_keys: "set (map f (novel f S xs)) = f ` set xs - S"
  by (induction xs arbitrary: S) auto

lemma novel_nth:
  "k \<in> f ` set xs \<Longrightarrow> k \<notin> S \<Longrightarrow>
     novel f S xs ! index_of k (map f (novel f S xs)) = xs ! index_of k (map f xs)"
proof (induction xs arbitrary: S)
  case Nil
  then show ?case by simp
next
  case (Cons x xs)
  show ?case
  proof (cases "k = f x")
    case True
    with Cons.prems show ?thesis by simp
  next
    case False
    with Cons.prems have "k \<in> f ` set xs" by auto
    with False Cons.prems Cons.IH [of S] Cons.IH [of "insert (f x) S"] show ?thesis
      by auto
  qed
qed

lemma novel_snoc:
  "novel f S (xs @ [x]) = novel f S xs @ (if f x \<in> S \<union> f ` set xs then [] else [x])"
  by (induction xs arbitrary: S) auto

lemma forwarded_positions_snoc:
  "forwarded_positions f (xs @ [x])
     = forwarded_positions f xs @ (if f x \<in> f ` set xs then [] else [length xs])"
proof -
  have "filter (\<lambda>i. f ((xs @ [x]) ! i) \<notin> set (map f (take i (xs @ [x])))) [0..<length xs]
          = filter (\<lambda>i. f (xs ! i) \<notin> set (map f (take i xs))) [0..<length xs]"
    by (rule filter_cong) (auto simp: nth_append)
  then show ?thesis
    by (simp add: forwarded_positions_def)
qed

lemma novel_positions: "novel f {} xs = map ((!) xs) (forwarded_positions f xs)"
proof (induction xs rule: rev_induct)
  case Nil
  then show ?case by (simp add: forwarded_positions_def)
next
  case (snoc x xs)
  have "map ((!) (xs @ [x])) (forwarded_positions f xs) = map ((!) xs) (forwarded_positions f xs)"
    by (rule map_cong) (auto simp: forwarded_positions_def nth_append)
  with snoc show ?case
    by (simp add: novel_snoc forwarded_positions_snoc)
qed

lemma Input_from_empty:
  assumes "parse_key (key opt) = Inr cols" and "field_separator opt \<noteq> []"
  shows "\<exists>ist. Input Map.empty flush_rate opt ls = Some (Inr ist)
           \<and> produced (events ist)
               = map Some (map (line_fingerprint cols (field_separator opt)) ls) @ [None]
           \<and> written (events ist) = novel (line_fingerprint cols (field_separator opt)) {} ls
           \<and> cache ist = (\<lambda>k. if k \<in> line_fingerprint cols (field_separator opt) ` set ls
                                then Some None else None)"
proof -
  let ?fp = "line_fingerprint cols (field_separator opt)"
  let ?st0 = "\<lparr>cache = Map.empty, flush_count = flush_rate, events = []\<rparr>"
  let ?st1 = "foldl (\<lambda>st l. Input_line flush_rate l (?fp l) st) ?st0 ls"
  have "produced (events ?st1) = map Some (map ?fp ls)"
    using foldl_Input_line_produced [of flush_rate ?fp ?st0 ls] by simp
  moreover have "written (events ?st1) = novel ?fp {} ls"
    using foldl_Input_line_written [of flush_rate ?fp ?st0 ls] by simp
  moreover have "cache ?st1 = (\<lambda>k. if k \<in> ?fp ` set ls then Some None else None)"
    using foldl_Input_line_cache [of flush_rate ?fp ?st0 ls] by (intro ext) simp
  ultimately show ?thesis
    using Input_returns [OF assms, of Map.empty flush_rate ls]
    by (simp add: produced_append written_append)
qed

lemma workers_returns:
  assumes key: "parse_key (key opt) = Inr cols" and sep: "field_separator opt \<noteq> []"
    and contract: "length (child (novel (line_fingerprint cols (field_separator opt)) {} ls))
                     = length (novel (line_fingerprint cols (field_separator opt)) {} ls)"
  shows "workers opt ls child status =
           Some (Inr \<lparr>child_stdin = novel (line_fingerprint cols (field_separator opt)) {} ls,
                      stdout = unlines (map (\<lambda>l.
                          child (novel (line_fingerprint cols (field_separator opt)) {} ls)
                            ! index_of (line_fingerprint cols (field_separator opt) l)
                                (map (line_fingerprint cols (field_separator opt))
                                   (novel (line_fingerprint cols (field_separator opt)) {} ls))) ls),
                      exit_code = wrapper_exit_status status\<rparr>)"
proof -
  let ?fp = "line_fingerprint cols (field_separator opt)"
  let ?fw = "novel ?fp {} ls"
  from Input_from_empty [OF key sep, of kFlushRate ls] obtain ist
    where ist: "Input Map.empty kFlushRate opt ls = Some (Inr ist)"
      and queue: "produced (events ist) = map Some (map ?fp ls) @ [None]"
      and sent: "written (events ist) = ?fw"
      and slots: "cache ist = (\<lambda>k. if k \<in> ?fp ` set ls then Some None else None)"
    by blast
  let ?st = "\<lparr>slots = cache ist, process_output = child ?fw, out = []\<rparr>"
  have pend: "novel id {k. slots ?st k \<noteq> Some None} (map ?fp ls) = map ?fp ?fw"
  proof -
    have "novel id {k. slots ?st k \<noteq> Some None} (map ?fp ls) = novel id {} (map ?fp ls)"
      by (rule novel_cong) (simp add: slots)
    then show ?thesis by (simp add: novel_map)
  qed
  have valid: "\<forall>k\<in>set (map ?fp ls). slots ?st k \<noteq> None"
    by (simp add: slots)
  have enough: "length (novel id {k. slots ?st k \<noteq> Some None} (map ?fp ls))
                  \<le> length (process_output ?st)"
    unfolding pend using contract by simp
  from Output_run [OF valid enough, of "[]"] obtain ost
    where run: "Output (map Some (map ?fp ls) @ [None]) ?st = Some (Inr ost)"
      and out: "out ost = out ?st @ unlines (map (reply (slots ?st)
                    (novel id {k. slots ?st k \<noteq> Some None} (map ?fp ls))
                    (process_output ?st)) (map ?fp ls))"
    by blast
  have replies: "map (reply (slots ?st) (map ?fp ?fw) (process_output ?st)) (map ?fp ls)
          = map (\<lambda>l. child ?fw ! index_of (?fp l) (map ?fp ?fw)) ls"
    by (simp add: slots reply_absent)
  have "out ost = unlines (map (\<lambda>l. child ?fw ! index_of (?fp l) (map ?fp ?fw)) ls)"
    using out [unfolded pend replies] by simp
  with ist queue sent run show ?thesis
    by (simp add: workers_def)
qed

lemma wrapper_exit_status_zero: "wrapper_exit_status 0 = 0"
  by (simp add: wrapper_exit_status_def main_return_def WIFEXITED_def WEXITSTATUS_def)

lemma one_line_in_one_line_out_id: "one_line_in_one_line_out id"
  by (simp add: one_line_in_one_line_out_def)

lemma parse_key_one: "parse_key ''1'' = Inr [1]"
  by code_simp

lemma Input_fingerprint_Some_separator:
  "Input_fingerprint cols sep l = Some r \<Longrightarrow> sep \<noteq> []"
  by (auto simp: Input_fingerprint_def split: option.splits dest: split_loop_needs_separator)

text \<open>
  Claim C1, as stated, fails. With the key column 1 the lines \<open>foo,1\<close> and \<open>foo,2\<close>
  have the same fingerprint. A child that copies its input obeys the contract; it
  receives the first line only, and the second output line is \<open>foo,1\<close>, which is not
  the child's output for the second input line.
\<close>

theorem output_is_child_output_for_same_line_counterexample:
  "one_line_in_one_line_out id \<and>
   workers \<lparr>key = ''1'', field_separator = '',''\<rparr> [''foo,1'', ''foo,2''] id 0
     = Some (Inr \<lparr>child_stdin = [''foo,1''],
                  stdout = unlines [''foo,1'', ''foo,1''],
                  exit_code = 0\<rparr>) \<and>
   unlines [''foo,1'', ''foo,1''] \<noteq> unlines (id [''foo,1'', ''foo,2''])"
proof -
  have key: "parse_key (key \<lparr>key = ''1'', field_separator = '',''\<rparr>) = Inr [1]"
    by (simp add: parse_key_one)
  have fields: "split_fields '','' ''foo,1'' = [''foo'', ''1'']"
      "split_fields '','' ''foo,2'' = [''foo'', ''2'']"
    by code_simp+
  have fp: "line_fingerprint [1] '','' ''foo,1'' = MurmurHashNative ''foo''"
      "line_fingerprint [1] '','' ''foo,2'' = MurmurHashNative ''foo''"
    by (simp_all add: line_fingerprint_def key_max_def key_min_def INT_MAX_def fields)
  from workers_returns [of "\<lparr>key = ''1'', field_separator = '',''\<rparr>" "[1]" id
      "[''foo,1'', ''foo,2'']" 0, OF key] fp
  show ?thesis
    by (simp add: wrapper_exit_status_zero one_line_in_one_line_out_id unlines_def)
qed

text \<open>
  Claim C1, amended. For every input of N lines and every child that writes one line
  for each line it reads (the \<open>--key\<close> value being accepted and the field separator not
  empty), the wrapper returns and writes exactly N lines, each followed by a newline, and
  the i-th of them is the child's output for the first input line that has the
  fingerprint of the i-th input line: that line, at position \<open>a\<close> of the input, is the
  \<open>k\<close>-th line the child reads, and the output line is the \<open>k\<close>-th line the child
  writes. For a line whose fingerprint is new, this is the line itself.
\<close>

theorem output_is_child_output_for_first_line_of_fingerprint:
  assumes "parse_key (key opt) = Inr cols" and "field_separator opt \<noteq> []"
    and "one_line_in_one_line_out child"
  shows "\<exists>fw outs.
           workers opt ls child status
             = Some (Inr \<lparr>child_stdin = fw, stdout = unlines outs,
                          exit_code = wrapper_exit_status status\<rparr>)
           \<and> length outs = length ls
           \<and> (\<forall>i<length ls. \<exists>a k. a \<le> i \<and> k < length fw
                 \<and> line_fingerprint cols (field_separator opt) (ls ! a)
                     = line_fingerprint cols (field_separator opt) (ls ! i)
                 \<and> (\<forall>j<a. line_fingerprint cols (field_separator opt) (ls ! j)
                             \<noteq> line_fingerprint cols (field_separator opt) (ls ! i))
                 \<and> fw ! k = ls ! a
                 \<and> outs ! i = child fw ! k)"
proof -
  let ?fp = "line_fingerprint cols (field_separator opt)"
  let ?fw = "novel ?fp {} ls"
  let ?outs = "map (\<lambda>l. child ?fw ! index_of (?fp l) (map ?fp ?fw)) ls"
  have contract: "length (child ?fw) = length ?fw"
    using assms(3) by (simp add: one_line_in_one_line_out_def)
  have lines: "\<exists>a k. a \<le> i \<and> k < length ?fw \<and> ?fp (ls ! a) = ?fp (ls ! i)
                 \<and> (\<forall>j<a. ?fp (ls ! j) \<noteq> ?fp (ls ! i))
                 \<and> ?fw ! k = ls ! a \<and> ?outs ! i = child ?fw ! k"
    if i: "i < length ls" for i
  proof -
    let ?a = "index_of (?fp (ls ! i)) (map ?fp ls)"
    let ?k = "index_of (?fp (ls ! i)) (map ?fp ?fw)"
    from i have mem: "?fp (ls ! i) \<in> ?fp ` set ls"
      by simp
    then have mem': "?fp (ls ! i) \<in> set (map ?fp ls)"
      by simp
    have le: "?a \<le> i"
      using index_of_le [of i "map ?fp ls"] i by simp
    with i have a: "?a < length ls"
      by simp
    have "?fp (ls ! i) \<in> set (map ?fp ?fw)"
      using mem by (simp only: novel_keys) simp
    then have k: "?k < length ?fw"
      using index_of_less [of "?fp (ls ! i)" "map ?fp ?fw"] by simp
    have same: "?fp (ls ! ?a) = ?fp (ls ! i)"
      using index_of_nth [OF mem'] a by simp
    have first: "\<forall>j<?a. ?fp (ls ! j) \<noteq> ?fp (ls ! i)"
    proof (intro allI impI)
      fix j assume j: "j < ?a"
      with a index_of_first [OF j] show "?fp (ls ! j) \<noteq> ?fp (ls ! i)"
        by simp
    qed
    have sent: "?fw ! ?k = ls ! ?a"
      using novel_nth [OF mem, of "{}"] by simp
    have "?outs ! i = child ?fw ! ?k"
      using i by simp
    with le k same first sent show ?thesis
      by blast
  qed
  from workers_returns [of opt cols child ls status, OF assms(1,2) contract] lines show ?thesis
    by (intro exI [of _ ?fw] exI [of _ ?outs]) simp
qed


theorem output_is_child_output_for_first_line_of_fingerprint_witness:
  "\<exists>fw outs.
     workers \<lparr>key = ''1'', field_separator = '',''\<rparr> [''foo,1'', ''bar,1'', ''foo,2''] id 0
       = Some (Inr \<lparr>child_stdin = fw, stdout = unlines outs, exit_code = wrapper_exit_status 0\<rparr>)
     \<and> length outs = length [''foo,1'', ''bar,1'', ''foo,2'']
     \<and> (\<forall>i<length [''foo,1'', ''bar,1'', ''foo,2'']. \<exists>a k. a \<le> i \<and> k < length fw
           \<and> line_fingerprint [1] '','' ([''foo,1'', ''bar,1'', ''foo,2''] ! a)
               = line_fingerprint [1] '','' ([''foo,1'', ''bar,1'', ''foo,2''] ! i)
           \<and> (\<forall>j<a. line_fingerprint [1] '','' ([''foo,1'', ''bar,1'', ''foo,2''] ! j)
                       \<noteq> line_fingerprint [1] '','' ([''foo,1'', ''bar,1'', ''foo,2''] ! i))
           \<and> fw ! k = [''foo,1'', ''bar,1'', ''foo,2''] ! a
           \<and> outs ! i = id fw ! k)"
proof -
  have key: "parse_key (key \<lparr>key = ''1'', field_separator = '',''\<rparr>) = Inr [1]"
    by (simp add: parse_key_one)
  have sep: "field_separator \<lparr>key = ''1'', field_separator = '',''\<rparr> \<noteq> []"
    by simp
  from output_is_child_output_for_first_line_of_fingerprint
         [OF key sep one_line_in_one_line_out_id, of "[''foo,1'', ''bar,1'', ''foo,2'']" 0]
  show ?thesis by simp
qed

lemma index_of_unique:
  "p < length ys \<Longrightarrow> ys ! p = x \<Longrightarrow> x \<notin> set (take p ys) \<Longrightarrow> index_of x ys = p"
proof (induction ys arbitrary: p)
  case Nil
  then show ?case by simp
next
  case (Cons y ys)
  then show ?case by (cases p) auto
qed

lemma index_of_not_before: "x \<notin> set (take (index_of x ys) ys)"
  by (induction ys) auto

lemma forwarded_positions_member:
  "i \<in> set (forwarded_positions f xs) \<longleftrightarrow> i < length xs \<and> f (xs ! i) \<notin> set (map f (take i xs))"
  by (auto simp: forwarded_positions_def)

lemma forwarded_first:
  assumes "i < length xs"
  shows "i \<in> set (forwarded_positions f xs) \<longleftrightarrow> i = index_of (f (xs ! i)) (map f xs)"
proof
  assume "i \<in> set (forwarded_positions f xs)"
  then have "f (xs ! i) \<notin> set (take i (map f xs))"
    by (simp add: forwarded_positions_member take_map)
  with assms index_of_unique [of i "map f xs" "f (xs ! i)"]
  show "i = index_of (f (xs ! i)) (map f xs)"
    by simp
next
  assume first: "i = index_of (f (xs ! i)) (map f xs)"
  from index_of_not_before [of "f (xs ! i)" "map f xs"] first
  have "f (xs ! i) \<notin> set (take i (map f xs))"
    by simp
  with assms show "i \<in> set (forwarded_positions f xs)"
    by (simp add: forwarded_positions_member take_map)
qed

lemma forwarded_positions_nth:
  assumes "x \<in> f ` set xs"
  shows "forwarded_positions f xs ! index_of x (map f (novel f {} xs)) = index_of x (map f xs)"
proof -
  let ?P = "forwarded_positions f xs"
  let ?k = "index_of x (map f (novel f {} xs))"
  have fw: "novel f {} xs = map ((!) xs) ?P"
    by (rule novel_positions)
  have mem: "x \<in> set (map f (novel f {} xs))"
    using assms by (simp only: novel_keys) simp
  then have k: "?k < length ?P"
    using index_of_less [OF mem] by (simp add: fw)
  have "map f (novel f {} xs) ! ?k = x"
    by (rule index_of_nth [OF mem])
  with k have at_k: "f (xs ! (?P ! ?k)) = x"
    by (simp add: fw)
  from k have "?P ! ?k \<in> set ?P"
    by simp
  then have p: "?P ! ?k < length xs" and "?P ! ?k \<in> set ?P"
    by (simp_all add: forwarded_positions_member)
  with forwarded_first [OF p, of f] at_k show ?thesis
    by simp
qed

text \<open>
  Claim C2, as stated, fails where it says that the earlier of the two lines is the one
  forwarded. With the key column 1 the lines \<open>x,1\<close>, \<open>x,2\<close> and \<open>x,3\<close> have the same
  fingerprint. For the second and the third of them the child, which copies its input,
  has read neither: it has read the first line only, and all three output lines are its
  answer to that line.
\<close>

theorem only_earlier_line_is_forwarded_counterexample:
  "Input_fingerprint [1] '','' ([''x,1'', ''x,2'', ''x,3''] ! 1)
     = Some (Inr (MurmurHashNative ''x'')) \<and>
   Input_fingerprint [1] '','' ([''x,1'', ''x,2'', ''x,3''] ! 2)
     = Some (Inr (MurmurHashNative ''x'')) \<and>
   workers \<lparr>key = ''1'', field_separator = '',''\<rparr> [''x,1'', ''x,2'', ''x,3''] id 0
     = Some (Inr \<lparr>child_stdin = [''x,1''],
                  stdout = unlines [''x,1'', ''x,1'', ''x,1''],
                  exit_code = 0\<rparr>) \<and>
   [''x,1'', ''x,2'', ''x,3''] ! 1 \<notin> set [''x,1'']"
  by code_simp

text \<open>
  Claim C2, amended. Let two input lines, at positions \<open>a\<close> before \<open>b\<close>, get the same
  fingerprint \<open>f\<close> from \<open>Input\<close> under the key columns in force, and let the child write
  one line for each line it reads. Then the wrapper returns, and the output lines at
  \<open>a\<close> and at \<open>b\<close> are the same line: the child's answer to the first input line with
  the fingerprint \<open>f\<close>, which stands at a position \<open>c\<close> not after \<open>a\<close> and is the
  \<open>k\<close>-th line the child reads. The child reads the lines at the positions that have no
  earlier line with the same fingerprint; of the lines with the fingerprint \<open>f\<close> it reads
  the one at \<open>c\<close> and no other, so it never reads the line at \<open>b\<close>, and it reads the
  line at \<open>a\<close> exactly when \<open>a\<close> is \<open>c\<close>.
\<close>

theorem repeated_fingerprint_reuses_first_output:
  assumes "parse_key (key opt) = Inr cols" and "one_line_in_one_line_out child"
    and "a < b" and "b < length ls"
    and "Input_fingerprint cols (field_separator opt) (ls ! a) = Some (Inr f)"
    and "Input_fingerprint cols (field_separator opt) (ls ! b) = Some (Inr f)"
  shows "\<exists>outs c k.
           workers opt ls child status
             = Some (Inr \<lparr>child_stdin = map ((!) ls)
                            (forwarded_positions (line_fingerprint cols (field_separator opt)) ls),
                          stdout = unlines outs,
                          exit_code = wrapper_exit_status status\<rparr>)
           \<and> length outs = length ls
           \<and> c \<le> a
           \<and> line_fingerprint cols (field_separator opt) (ls ! c) = f
           \<and> (\<forall>j<c. line_fingerprint cols (field_separator opt) (ls ! j) \<noteq> f)
           \<and> k < length (forwarded_positions (line_fingerprint cols (field_separator opt)) ls)
           \<and> forwarded_positions (line_fingerprint cols (field_separator opt)) ls ! k = c
           \<and> outs ! a = child (map ((!) ls)
                 (forwarded_positions (line_fingerprint cols (field_separator opt)) ls)) ! k
           \<and> outs ! b = child (map ((!) ls)
                 (forwarded_positions (line_fingerprint cols (field_separator opt)) ls)) ! k
           \<and> (\<forall>i<length ls. line_fingerprint cols (field_separator opt) (ls ! i) = f \<longrightarrow>
                 (i \<in> set (forwarded_positions (line_fingerprint cols (field_separator opt)) ls)
                    \<longleftrightarrow> i = c))
           \<and> b \<notin> set (forwarded_positions (line_fingerprint cols (field_separator opt)) ls)
           \<and> (\<forall>l. Input_fingerprint cols (field_separator opt) l
                     = Some (Inr (line_fingerprint cols (field_separator opt) l)))"
proof -
  let ?fp = "line_fingerprint cols (field_separator opt)"
  let ?P = "forwarded_positions ?fp ls"
  let ?fw = "map ((!) ls) ?P"
  let ?outs = "map (\<lambda>l. child ?fw ! index_of (?fp l) (map ?fp ?fw)) ls"
  let ?c = "index_of f (map ?fp ls)"
  let ?k = "index_of f (map ?fp ?fw)"
  have fw: "novel ?fp {} ls = ?fw"
    by (rule novel_positions)
  have sep: "field_separator opt \<noteq> []"
    using assms(5) by (rule Input_fingerprint_Some_separator)
  have code: "Input_fingerprint cols (field_separator opt) l = Some (Inr (?fp l))" for l
    by (rule Input_fingerprint_returns [OF sep parse_key_nonempty [OF assms(1)]])
  from assms(5,6) code have fa: "?fp (ls ! a) = f" and fb: "?fp (ls ! b) = f"
    by simp_all
  from assms(3,4) have a: "a < length ls"
    by simp
  have contract: "length (child (novel ?fp {} ls)) = length (novel ?fp {} ls)"
    using assms(2) by (simp add: one_line_in_one_line_out_def)
  have run: "workers opt ls child status
               = Some (Inr \<lparr>child_stdin = ?fw, stdout = unlines ?outs,
                            exit_code = wrapper_exit_status status\<rparr>)"
    using workers_returns [of opt cols child ls status, OF assms(1) sep contract]
    by (simp only: fw)
  have mem: "f \<in> ?fp ` set ls"
    using a fa by (metis imageI nth_mem)
  then have mem': "f \<in> set (map ?fp ls)"
    by simp
  have c_le: "?c \<le> a"
    using index_of_le [of a "map ?fp ls"] a fa by simp
  with a have c: "?c < length ls"
    by simp
  have c_fp: "?fp (ls ! ?c) = f"
    using index_of_nth [OF mem'] c by simp
  have c_first: "\<forall>j<?c. ?fp (ls ! j) \<noteq> f"
  proof (intro allI impI)
    fix j assume j: "j < ?c"
    with c index_of_first [OF j] show "?fp (ls ! j) \<noteq> f"
      by simp
  qed
  have "f \<in> set (map ?fp (novel ?fp {} ls))"
    using mem by (simp only: novel_keys) simp
  then have "index_of f (map ?fp (novel ?fp {} ls)) < length (map ?fp (novel ?fp {} ls))"
    by (rule index_of_less)
  then have k: "?k < length ?P"
    by (simp add: fw)
  have pk: "?P ! ?k = ?c"
    using forwarded_positions_nth [OF mem] by (simp only: fw)
  have out_a: "?outs ! a = child ?fw ! ?k"
    using a fa by simp
  have out_b: "?outs ! b = child ?fw ! ?k"
    using assms(4) fb by simp
  have only: "\<forall>i<length ls. ?fp (ls ! i) = f \<longrightarrow> (i \<in> set ?P \<longleftrightarrow> i = ?c)"
    using forwarded_first [of _ ls ?fp] by auto
  have notb: "b \<notin> set ?P"
    using only assms(3,4) fb c_le by auto
  from run c_le c_fp c_first k pk out_a out_b only notb code show ?thesis
    by (intro exI [of _ ?outs] exI [of _ ?c] exI [of _ ?k]) simp
qed


theorem repeated_fingerprint_reuses_first_output_witness:
  "\<exists>outs c k.
     workers \<lparr>key = ''1,3'', field_separator = '',''\<rparr>
         [''a,x,b'', ''q,x,r'', ''a,y,b'', ''a,z,b''] id 0
       = Some (Inr \<lparr>child_stdin = [''a,x,b'', ''q,x,r''], stdout = unlines outs,
                    exit_code = 0\<rparr>)
     \<and> length outs = 4 \<and> c \<le> 2 \<and> k < 2 \<and> [0, 1] ! k = c
     \<and> line_fingerprint [1, 3] '','' ([''a,x,b'', ''q,x,r'', ''a,y,b'', ''a,z,b''] ! c)
         = MurmurHashNative ''ab''
     \<and> outs ! 2 = id [''a,x,b'', ''q,x,r''] ! k
     \<and> outs ! 3 = id [''a,x,b'', ''q,x,r''] ! k
     \<and> 3 \<notin> set [0, 1 :: nat]"
proof -
  let ?opt = "\<lparr>key = ''1,3'', field_separator = '',''\<rparr>"
  let ?ls = "[''a,x,b'', ''q,x,r'', ''a,y,b'', ''a,z,b'']"
  have cols: "parse_key (key ?opt) = Inr [1, 3]"
    by code_simp
  have order: "(2::nat) < 3" "3 < length ?ls"
    by simp_all
  have fa: "Input_fingerprint [1, 3] (field_separator ?opt) (?ls ! 2)
              = Some (Inr (MurmurHashNative ''ab''))"
    by code_simp
  have fb: "Input_fingerprint [1, 3] (field_separator ?opt) (?ls ! 3)
              = Some (Inr (MurmurHashNative ''ab''))"
    by code_simp
  have positions: "forwarded_positions (line_fingerprint [1, 3] '','') ?ls = [0, 1]"
    by code_simp
  from repeated_fingerprint_reuses_first_output
         [OF cols one_line_in_one_line_out_id order fa fb, of 0]
  obtain outs c k where
    "workers ?opt ?ls id 0
       = Some (Inr \<lparr>child_stdin = map ((!) ?ls) (forwarded_positions (line_fingerprint [1, 3] '','') ?ls),
                    stdout = unlines outs, exit_code = wrapper_exit_status 0\<rparr>)"
    "length outs = length ?ls" "c \<le> 2"
    "line_fingerprint [1, 3] '','' (?ls ! c) = MurmurHashNative ''ab''"
    "k < length (forwarded_positions (line_fingerprint [1, 3] '','') ?ls)"
    "forwarded_positions (line_fingerprint [1, 3] '','') ?ls ! k = c"
    "outs ! 2 = id (map ((!) ?ls) (forwarded_positions (line_fingerprint [1, 3] '','') ?ls)) ! k"
    "outs ! 3 = id (map ((!) ?ls) (forwarded_positions (line_fingerprint [1, 3] '','') ?ls)) ! k"
    by auto
  then show ?thesis
    unfolding positions
    by (intro exI [of _ outs] exI [of _ c] exI [of _ k]) (simp add: wrapper_exit_status_zero)
qed

subsection \<open>The exit status\<close>

lemma status_mask_low: "(0x7f :: 32 word) = mask 7"
  by (simp add: mask_eq_exp_minus_1)

lemma status_mask_high: "(0xff00 :: 32 word) = push_bit 8 (mask 8)"
  by (simp add: mask_eq_exp_minus_1 push_bit_eq_mult)

lemma WIFEXITED_exited: "WIFEXITED (exited_status code)"
  unfolding WIFEXITED_def exited_status_def status_mask_low
  by (simp add: bit_eq_iff bit_simps)

lemma WEXITSTATUS_exited: "WEXITSTATUS (exited_status code) = uint code"
proof -
  have "drop_bit 8 (push_bit 8 (ucast code :: 32 word) AND push_bit 8 (mask 8)) = ucast code"
    by (rule bit_eqI) (auto simp: bit_simps dest: bit_imp_le_length)
  moreover have "uint (ucast code :: 32 word) = uint code"
    by (rule uint_up_ucast) (simp add: is_up)
  ultimately show ?thesis
    unfolding WEXITSTATUS_def exited_status_def status_mask_high
    by (simp only:)
qed

lemma WIFEXITED_signaled:
  "sig AND 0x7f \<noteq> 0 \<Longrightarrow> \<not> WIFEXITED (signaled_status sig core)"
  unfolding WIFEXITED_def signaled_status_def status_mask_low
  by (auto simp: bit_eq_iff bit_simps)

lemma main_return_exited: "main_return (exited_status code) = uint code"
  by (simp add: main_return_def WIFEXITED_exited WEXITSTATUS_exited)

lemma main_return_signaled:
  "sig AND 0x7f \<noteq> 0 \<Longrightarrow> main_return (signaled_status sig core) = 256"
  by (simp add: main_return_def WIFEXITED_signaled)

lemma wrapper_exit_status_exited: "wrapper_exit_status (exited_status code) = uint code"
proof -
  have "uint code < 2 ^ LENGTH(8)"
    by (rule uint_lt2p)
  then show ?thesis
    by (simp add: wrapper_exit_status_def main_return_exited)
qed

lemma wrapper_exit_status_signaled:
  "sig AND 0x7f \<noteq> 0 \<Longrightarrow> wrapper_exit_status (signaled_status sig core) = 0"
  by (simp add: wrapper_exit_status_def main_return_signaled)

lemma main_outcome_exit_code:
  "outcome (main argv ls child status) = Some (Inr fin) \<Longrightarrow>
     exit_code fin = wrapper_exit_status status"
  by (auto simp: main_def workers_def split: if_splits sum.splits option.splits)

text \<open>
  Claim C7 holds for a child that leaves through \<open>exit\<close>: the wrapper's exit status is
  the child's exit code (\<open>wrapper_exit_status_exited\<close>). It fails for a child that a
  signal kills. \<open>main\<close> returns 256 then, as line 214 says, but an exit status has eight
  bits: the wrapper's exit status is 0, the same as for a child that left with code 0.
  Here the child \<open>cat\<close> is killed by signal 9 after it has answered one line.
\<close>

theorem killed_child_gives_exit_status_zero:
  "main_return (signaled_status 9 False) = 256 \<and>
   wrapper_exit_status (signaled_status 9 False) = 0 \<and>
   wrapper_exit_status (exited_status 0) = 0 \<and>
   outcome (main [''cache'', ''cat''] [''a''] id (signaled_status 9 False))
     = Some (Inr \<lparr>child_stdin = [''a''], stdout = unlines [''a''], exit_code = 0\<rparr>)"
proof -
  have sig: "(9 :: 32 word) AND 0x7f \<noteq> 0"
    by simp
  have run: "outcome (main [''cache'', ''cat''] [''a''] id (signaled_status 9 False))
               = Some (Inr \<lparr>child_stdin = [''a''], stdout = unlines [''a''],
                            exit_code = wrapper_exit_status (signaled_status 9 False)\<rparr>)"
    by code_simp
  from run main_return_signaled [OF sig, of False] wrapper_exit_status_signaled [OF sig, of False]
    wrapper_exit_status_exited [of 0]
  show ?thesis by simp
qed

subsection \<open>A key that cannot be converted\<close>

lemma parse_key_loop_tokens:
  "parse_key_loop s acc =
     (case stoi_all (split_fields '','' s) of Inl e \<Rightarrow> Inl e | Inr vs \<Rightarrow> Inr (acc @ vs))"
proof (induction s acc rule: parse_key_loop.induct)
  case (1 s_args columns_args)
  show ?case
  proof (cases "str_find s_args '',''")
    case None
    then show ?thesis
      by (subst parse_key_loop.simps, subst split_fields.simps) (simp split: sum.splits)
  next
    case (Some pos)
    show ?thesis
    proof (cases "stoi (take pos s_args)")
      case (Inl e)
      with Some show ?thesis
        by (subst parse_key_loop.simps, subst split_fields.simps) simp
    next
      case (Inr v)
      with Some "1.IH" [OF Some Inr] show ?thesis
        by (subst parse_key_loop.simps, subst split_fields.simps) (simp split: sum.splits)
    qed
  qed
qed

lemma parse_key_tokens: "parse_key k = stoi_all (split_fields '','' k)"
  by (simp add: parse_key_def parse_key_loop_tokens split: sum.splits)

lemma stoi_all_rejects:
  "t \<in> set ts \<Longrightarrow> stoi t = Inl e \<Longrightarrow> \<exists>e'. stoi_all ts = Inl e'"
  by (induction ts) (auto split: sum.splits)

lemma parse_key_rejects:
  "t \<in> set (split_fields '','' k) \<Longrightarrow> stoi t = Inl e \<Longrightarrow> \<exists>e'. parse_key k = Inl e'"
  by (simp only: parse_key_tokens) (rule stoi_all_rejects)

lemma main_key_rejected:
  assumes "2 \<le> length argv" and "skip_args argv \<le> length argv"
    and "ParseArgs (take (skip_args argv) argv) = Inr opt"
    and "parse_key (key opt) = Inl e"
  shows "main argv ls child status
           = \<lparr>launched = Some (child_argv argv), outcome = Some (Inl e)\<rparr>"
  using assms by (simp add: main_def workers_def Input_def)

text \<open>
  Claim C8, as stated, fails twice. A \<open>--key\<close> value without a digit does stop the
  wrapper, but only in \<open>Input\<close>: the arguments have been parsed and the child has been
  launched by then. And a piece that is not an integer but starts with one, such as
  \<open>1x\<close>, is accepted: the run completes.
\<close>

theorem malformed_key_fails_at_parse_time_counterexample:
  "main [''cache'', ''-k'', ''x'', ''cat''] [''a''] id 0
     = \<lparr>launched = Some [''cat''], outcome = Some (Inl invalid_argument)\<rparr> \<and>
   main [''cache'', ''-k'', ''1x'', ''cat''] [''a''] id 0
     = \<lparr>launched = Some [''cat''],
        outcome = Some (Inr \<lparr>child_stdin = [''a''], stdout = unlines [''a''], exit_code = 0\<rparr>)\<rparr>"
  by code_simp

text \<open>
  Claim C8, amended. For every invocation whose arguments are accepted by \<open>ParseArgs\<close>
  and whose \<open>--key\<close> value has, between its commas, a piece that \<open>std::stoi\<close> rejects
  (no digit after optional white space and sign, or a value outside \<open>int\<close>), the wrapper
  fails fatally in the \<open>Input\<close> worker: the child has been launched with its argument
  vector, and the failure is the same whatever the input, the child and its status are,
  so no input line is read before it.
\<close>

theorem malformed_key_fails_in_Input:
  assumes "2 \<le> length argv" and "skip_args argv \<le> length argv"
    and "ParseArgs (take (skip_args argv) argv) = Inr opt"
    and "t \<in> set (split_fields '','' (key opt))" and "stoi t = Inl e"
  shows "\<exists>e'. parse_key (key opt) = Inl e' \<and>
           (\<forall>ls child status.
              main argv ls child status
                = \<lparr>launched = Some (child_argv argv), outcome = Some (Inl e')\<rparr>)"
proof -
  from parse_key_rejects [OF assms(4,5)] obtain e' where "parse_key (key opt) = Inl e'"
    by blast
  with main_key_rejected [OF assms(1-3)] show ?thesis
    by blast
qed

theorem malformed_key_fails_in_Input_witness:
  "\<exists>e'. parse_key ''1,x'' = Inl e' \<and>
     (\<forall>ls child status.
        main [''cache'', ''--key'', ''1,x'', ''cat'', ''-n''] ls child status
          = \<lparr>launched = Some [''cat'', ''-n''], outcome = Some (Inl e')\<rparr>)"
proof -
  let ?argv = "[''cache'', ''--key'', ''1,x'', ''cat'', ''-n'']"
  have skip: "skip_args ?argv = 3"
    by (simp add: skip_args_def is_option_def)
  have len: "2 \<le> length ?argv" "skip_args ?argv \<le> length ?argv"
    by (simp_all add: skip)
  have opts: "ParseArgs (take (skip_args ?argv) ?argv)
                = Inr \<lparr>key = ''1,x'', field_separator = [CHR 0x09]\<rparr>"
    by (simp add: skip ParseArgs_def)
  have fields: "split_fields '','' ''1,x'' = [''1'', ''x'']"
    by code_simp
  have token: "''x'' \<in> set (split_fields '','' (key \<lparr>key = ''1,x'', field_separator = [CHR 0x09]\<rparr>))"
    by (simp add: fields)
  have rejected: "stoi ''x'' = Inl invalid_argument"
    by code_simp
  from malformed_key_fails_in_Input [OF len opts token rejected]
  show ?thesis
    by (simp add: child_argv_def skip)
qed

subsection \<open>The command line\<close>

lemma skip_args_no_option:
  "\<not> is_option cmd \<Longrightarrow> (2 \<le> length args \<longrightarrow> \<not> is_option (args ! 1)) \<Longrightarrow>
     skip_args (prog # cmd # args) = 1"
  by (cases args; cases "tl args") (auto simp: skip_args_def)

lemma skip_args_two_options:
  "is_option o1 \<Longrightarrow> is_option o2 \<Longrightarrow> skip_args (prog # o1 # v1 # o2 # v2 # rest) = 5"
  by (simp add: skip_args_def)

lemma ParseArgs_no_option:
  "ParseArgs [prog] = Inr \<lparr>key = ''-1'', field_separator = [CHR 0x09]\<rparr>"
  by (simp add: ParseArgs_def)

lemma ParseArgs_one_option:
  "is_option o1 \<Longrightarrow>
     ParseArgs [prog, o1, v1]
       = Inr (if o1 = ''-k'' \<or> o1 = ''--key''
              then \<lparr>key = v1, field_separator = [CHR 0x09]\<rparr>
              else \<lparr>key = ''-1'', field_separator = v1\<rparr>)"
  by (auto simp: ParseArgs_def is_option_def)

lemma ParseArgs_two_options:
  "is_option o1 \<Longrightarrow> is_option o2 \<Longrightarrow>
   (o1 = ''-k'' \<or> o1 = ''--key'') \<noteq> (o2 = ''-k'' \<or> o2 = ''--key'') \<Longrightarrow>
     ParseArgs [prog, o1, v1, o2, v2]
       = Inr (if o1 = ''-k'' \<or> o1 = ''--key''
              then \<lparr>key = v1, field_separator = v2\<rparr>
              else \<lparr>key = v2, field_separator = v1\<rparr>)"
  by (auto simp: ParseArgs_def is_option_def)

text \<open>
  Claim C9, as stated, fails: the wrapper does not consume a \<open>--\<close> terminator. With
  or without options before it, \<open>--\<close> is the first word handed to \<open>Launch\<close>, so it is
  the name given to \<open>execvp\<close>.
\<close>

theorem terminator_is_consumed_counterexample:
  "launched (main [''cache'', ''-k'', ''1'', ''--'', ''cat''] [] id 0) = Some [''--'', ''cat''] \<and>
   launched (main [''cache'', ''--'', ''cat''] [] id 0) = Some [''--'', ''cat'']"
  by code_simp

text \<open>
  Claim C9, amended. For every command line of the shape
  \<open>cache [OPT VAL [OPT VAL]] CHILD [CHILD_ARGS...]\<close>, without a terminator, where each
  \<open>OPT\<close> is one of the words \<open>-k\<close>, \<open>--key\<close>, \<open>-t\<close>, \<open>--field_separator\<close> followed by
  its value as the next word (two options name different settings), \<open>CHILD\<close> is none of
  these four words and, when no option is given, the second argument of the child is none
  of them either: the wrapper keeps exactly the program name and its own options for
  \<open>ParseArgs\<close> and passes the remainder as it is to \<open>Launch\<close>, the first word being the
  name given to \<open>execvp\<close>.
\<close>

theorem options_consumed_rest_is_child_argv:
  "(\<not> is_option cmd \<and> (2 \<le> length args \<longrightarrow> \<not> is_option (args ! 1)) \<longrightarrow>
      take (skip_args (prog # cmd # args)) (prog # cmd # args) = [prog] \<and>
      launched (main (prog # cmd # args) ls child status) = Some (cmd # args)) \<and>
   (is_option o1 \<and> \<not> is_option cmd \<longrightarrow>
      take (skip_args (prog # o1 # v1 # cmd # args)) (prog # o1 # v1 # cmd # args)
        = [prog, o1, v1] \<and>
      launched (main (prog # o1 # v1 # cmd # args) ls child status) = Some (cmd # args)) \<and>
   (is_option o1 \<and> is_option o2 \<and>
    (o1 = ''-k'' \<or> o1 = ''--key'') \<noteq> (o2 = ''-k'' \<or> o2 = ''--key'') \<longrightarrow>
      take (skip_args (prog # o1 # v1 # o2 # v2 # cmd # args))
           (prog # o1 # v1 # o2 # v2 # cmd # args)
        = [prog, o1, v1, o2, v2] \<and>
      launched (main (prog # o1 # v1 # o2 # v2 # cmd # args) ls child status)
        = Some (cmd # args))"
proof (intro conjI impI)
  assume a: "\<not> is_option cmd \<and> (2 \<le> length args \<longrightarrow> \<not> is_option (args ! 1))"
  then have skip: "skip_args (prog # cmd # args) = 1"
    by (simp add: skip_args_no_option)
  show "take (skip_args (prog # cmd # args)) (prog # cmd # args) = [prog]"
    by (simp add: skip)
  show "launched (main (prog # cmd # args) ls child status) = Some (cmd # args)"
    by (simp add: main_def skip ParseArgs_no_option child_argv_def)
next
  assume a: "is_option o1 \<and> \<not> is_option cmd"
  then have skip: "skip_args (prog # o1 # v1 # cmd # args) = 3"
    by (simp add: skip_args_one_option)
  show "take (skip_args (prog # o1 # v1 # cmd # args)) (prog # o1 # v1 # cmd # args)
          = [prog, o1, v1]"
    by (simp add: skip)
  show "launched (main (prog # o1 # v1 # cmd # args) ls child status) = Some (cmd # args)"
    using a by (simp add: main_def skip ParseArgs_one_option child_argv_def)
next
  assume a: "is_option o1 \<and> is_option o2 \<and>
    (o1 = ''-k'' \<or> o1 = ''--key'') \<noteq> (o2 = ''-k'' \<or> o2 = ''--key'')"
  then have skip: "skip_args (prog # o1 # v1 # o2 # v2 # cmd # args) = 5"
    by (simp add: skip_args_two_options)
  show "take (skip_args (prog # o1 # v1 # o2 # v2 # cmd # args))
             (prog # o1 # v1 # o2 # v2 # cmd # args)
          = [prog, o1, v1, o2, v2]"
    by (simp add: skip)
  show "launched (main (prog # o1 # v1 # o2 # v2 # cmd # args) ls child status)
          = Some (cmd # args)"
    using a by (simp add: main_def skip ParseArgs_two_options child_argv_def)
qed

theorem options_consumed_rest_is_child_argv_witness:
  "launched (main [''cache'', ''cat'', ''-n''] [] id 0) = Some [''cat'', ''-n''] \<and>
   launched (main [''cache'', ''-k'', ''1'', ''cat'', ''-n''] [] id 0) = Some [''cat'', ''-n''] \<and>
   launched (main [''cache'', ''--key'', ''1'', ''-t'', '','', ''cat'', ''-n''] [] id 0)
     = Some [''cat'', ''-n'']"
proof -
  have opts: "is_option ''-k''" "is_option ''--key''" "is_option ''-t''" "\<not> is_option ''cat''"
    by (simp_all add: is_option_def)
  from options_consumed_rest_is_child_argv
         [where cmd = "''cat''" and args = "[''-n'']" and prog = "''cache''" and ls = "[]"
            and child = id and status = 0 and ?o1.0 = "''-k''" and ?v1.0 = "''1''"
            and ?o2.0 = "''-t''" and ?v2.0 = "'',''"]
    options_consumed_rest_is_child_argv
         [where cmd = "''cat''" and args = "[''-n'']" and prog = "''cache''" and ls = "[]"
            and child = id and status = 0 and ?o1.0 = "''--key''" and ?v1.0 = "''1''"
            and ?o2.0 = "''-t''" and ?v2.0 = "'',''"]
    opts
  show ?thesis by simp
qed

end
